theory Spec2Isabelle
  imports Main "HOL-Library.AList"
begin

section \<open>Values\<close>

text \<open>
  JavaScript values as far as the runtime inspects them.  Functions, arrays and objects
  carry a reference identity (a number); arrays and objects also carry a snapshot of
  their contents.  Numbers are integers: \<open>NaN\<close> and the signed zeros are not represented.
\<close>

datatype jsval =
    Undefined
  | Null
  | Bool bool
  | Num int
  | Str string
  | Fn nat
  | Arr nat "jsval list"
  | Obj nat "(string \<times> jsval) list"

datatype jstype = TUndefined | TObject | TBoolean | TNumber | TString | TFunction

fun typeof :: "jsval \<Rightarrow> jstype" where
  "typeof Undefined = TUndefined"
| "typeof Null = TObject"
| "typeof (Bool b) = TBoolean"
| "typeof (Num n) = TNumber"
| "typeof (Str s) = TString"
| "typeof (Fn f) = TFunction"
| "typeof (Arr i xs) = TObject"
| "typeof (Obj i fs) = TObject"

fun truthy :: "jsval \<Rightarrow> bool" where
  "truthy Undefined = False"
| "truthy Null = False"
| "truthy (Bool b) = b"
| "truthy (Num n) = (n \<noteq> 0)"
| "truthy (Str s) = (s \<noteq> [])"
| "truthy (Fn f) = True"
| "truthy (Arr i xs) = True"
| "truthy (Obj i fs) = True"

text \<open>\<open>Object.is\<close>: primitives by value, functions, arrays and objects by reference.\<close>

fun Object_is :: "jsval \<Rightarrow> jsval \<Rightarrow> bool" where
  "Object_is (Arr i xs) (Arr j ys) = (i = j)"
| "Object_is (Obj i fs) (Obj j gs) = (i = j)"
| "Object_is a b = (a = b)"

text \<open>\<open>String(n)\<close> for a non-negative integer \<open>n\<close>: its decimal digits.\<close>

definition digit_char :: "nat \<Rightarrow> char" where
  "digit_char d = ''0123456789'' ! (d mod 10)"

fun string_of_nat :: "nat \<Rightarrow> string" where
  "string_of_nat n =
     (if 10 \<le> n then string_of_nat (n div 10) @ [digit_char n] else [digit_char n])"

declare string_of_nat.simps [simp del]

text \<open>\<open>Object.keys\<close> / own enumerable entries of a value that is not null or undefined.\<close>

fun own_entries :: "jsval \<Rightarrow> (string \<times> jsval) list" where
  "own_entries (Obj i fs) = fs"
| "own_entries (Arr i xs) = zip (map string_of_nat [0..<length xs]) xs"
| "own_entries v = []"

definition lookup :: "(string \<times> jsval) list \<Rightarrow> string \<Rightarrow> jsval" where
  "lookup fs k = (case map_of fs k of None \<Rightarrow> Undefined | Some v \<Rightarrow> v)"

definition has_key :: "(string \<times> jsval) list \<Rightarrow> string \<Rightarrow> bool" where
  "has_key fs k = (map_of fs k \<noteq> None)"

subsection \<open>utils/equals.ts\<close>

definition isNullOrUndefined :: "jsval \<Rightarrow> bool" where
  "isNullOrUndefined v = (v = Null \<or> v = Undefined)"

definition isObject :: "jsval \<Rightarrow> bool" where
  "isObject v = (typeof v = TObject \<and> v \<noteq> Null)"

fun isArray :: "jsval \<Rightarrow> bool" where
  "isArray (Arr i xs) = True"
| "isArray v = False"

fun elems :: "jsval \<Rightarrow> jsval list" where
  "elems (Arr i xs) = xs"
| "elems v = []"

definition shallowCompareArrays :: "jsval list \<Rightarrow> jsval list \<Rightarrow> bool" where
  "shallowCompareArrays a b =
     (if length a \<noteq> length b then False
      else list_all (\<lambda>i. Object_is (a ! i) (b ! i)) [0..<length a])"

definition shallowCompareObjects ::
  "(string \<times> jsval) list \<Rightarrow> (string \<times> jsval) list \<Rightarrow> bool" where
  "shallowCompareObjects a b =
     (let keysA = map fst a; keysB = map fst b in
      if length keysA \<noteq> length keysB then False
      else list_all (\<lambda>k. List.member keysB k \<and> Object_is (lookup a k) (lookup b k)) keysA)"

definition shallowEquals :: "jsval \<Rightarrow> jsval \<Rightarrow> bool" where
  "shallowEquals a b =
     (if Object_is a b then True
      else if isNullOrUndefined a \<or> isNullOrUndefined b then False
      else if typeof a \<noteq> typeof b then False
      else if isArray a \<and> isArray b then shallowCompareArrays (elems a) (elems b)
      else if isObject a \<and> isObject b \<and> \<not> isArray a \<and> \<not> isArray b
        then shallowCompareObjects (own_entries a) (own_entries b)
      else False)"

section \<open>Data model\<close>

text \<open>
  A VNode's \<open>type\<close> is the text marker, a host tag, the fragment marker, a component
  function (identified by a number; its body and name live in the environment below) or
  any other symbol, which \<open>mount\<close> does not recognise.
\<close>

datatype vtype = TEXT_ELEMENT | Host string | Fragment | Component nat | OtherSymbol nat

text \<open>
  \<open>props.children\<close> is kept apart from the other props: it is the only prop that holds
  VNodes.  An absent \<open>children\<close> and an empty one are both \<open>[]\<close>
  (the source reads \<open>node.props.children || []\<close>).
\<close>

datatype vnode =
  VNode (vtype: vtype) (vkey: "string option") (vprops: "(string \<times> jsval) list")
        (vchildren: "vnode list")

datatype kind = TEXT | HOST | FRAGMENT | COMPONENT

datatype inst =
  Instance (inst_kind: kind) (inst_dom: "nat option") (inst_node: vnode)
           (inst_children: "inst option list") (inst_key: "string option")
           (inst_path: string)

text \<open>A host node of the document.  \<open>tagName = None\<close> is a Text node.\<close>

record dnode =
  tagName :: "string option"
  nodeValue :: jsval
  parentNode :: "nat option"
  childNodes :: "nat list"
  className :: jsval
  style :: "(string \<times> jsval) list"
  attributes :: "(string \<times> jsval) list"
  properties :: "(string \<times> jsval) list"
  listeners :: "(string \<times> jsval) list"

text \<open>The closure returned by \<open>useState\<close>: it captures \<open>hooks\<close>, \<open>cursor\<close> and \<open>state\<close>.\<close>

record setter =
  s_hooks :: nat
  s_cursor :: nat
  s_state :: jsval

text \<open>The closure queued by \<open>useEffect\<close>: it captures \<open>effect\<close>, \<open>hooks\<close> and \<open>cursor\<close>.\<close>

record effect_closure =
  e_effect :: jsval
  e_hooks :: nat
  e_cursor :: nat

datatype effect_item =
    CleanupItem string nat jsval
  | EffectItem string nat effect_closure

datatype task = RenderTask | FlushTask | EffectTask effect_closure

datatype error =
    HookOutsideComponent
  | NoContainer
  | NullRoot
  | TypeError
  | NotFoundError
  | UserError string

text \<open>
  The whole runtime: the document, the global \<open>context\<close> object of context.ts
  (\<open>root\<close>, \<open>hooks\<close>, \<open>effects\<close>), the arrays that \<open>context.hooks.state\<close> and the closures
  refer to (\<open>heap\<close>, by reference), the microtask queue with the two pending flags of
  \<open>withEnqueue\<close>, and a console on which user callbacks can leave a visible mark.
\<close>

record state =
  nodes :: "nat \<Rightarrow> dnode"
  next_node :: nat
  root_container :: "nat option"
  root_node :: "vnode option"
  root_instance :: "inst option"
  hooks_state :: "(string \<times> nat) list"
  hooks_cursor :: "(string \<times> nat) list"
  visited :: "string set"
  componentStack :: "string list"
  heap :: "nat \<Rightarrow> jsval list"
  next_ref :: nat
  effects_queue :: "effect_item list"
  microtasks :: "task list"
  render_scheduled :: bool
  flush_scheduled :: bool
  console :: "string list"

text \<open>
  User code: plain functions by number (effect bodies, cleanups, lazy initialisers,
  updaters, event handlers) and component functions by number, all of which may read and
  change the runtime and may throw.
\<close>

record env =
  fns :: "nat \<Rightarrow> jsval list \<Rightarrow> state \<Rightarrow> (error + jsval) \<times> state"
  comps :: "nat \<Rightarrow> (string \<times> jsval) list \<Rightarrow> vnode list \<Rightarrow> state
              \<Rightarrow> (error + vnode option) \<times> state"
  comp_name :: "nat \<Rightarrow> string"

definition call :: "env \<Rightarrow> jsval \<Rightarrow> jsval list \<Rightarrow> state \<Rightarrow> (error + jsval) \<times> state" where
  "call env f args s = (case f of Fn k \<Rightarrow> fns env k args s | _ \<Rightarrow> (Inl TypeError, s))"

subsection \<open>JavaScript arrays\<close>

text \<open>Reading past the end gives \<open>undefined\<close>; writing past the end extends the array.\<close>

definition js_get :: "jsval list \<Rightarrow> nat \<Rightarrow> jsval" where
  "js_get xs i = (if i < length xs then xs ! i else Undefined)"

definition js_set :: "jsval list \<Rightarrow> nat \<Rightarrow> jsval \<Rightarrow> jsval list" where
  "js_set xs i v =
     (if i < length xs then xs[i := v]
      else xs @ replicate (i - length xs) Undefined @ [v])"

section \<open>Scheduler\<close>

text \<open>
  Modelled from the spec: \<open>enqueue\<close> and \<open>withEnqueue\<close> of utils are not in src/.  The
  spec (4.3) says: a pending flag is tracked; if already pending, new requests are
  absorbed; otherwise the wrapped function is scheduled to run once, asynchronously, and
  the flag is cleared before it is invoked.  \<open>enqueue\<close> appends to the microtask queue.
\<close>

definition enqueue :: "task \<Rightarrow> state \<Rightarrow> state" where
  "enqueue t s = s\<lparr>microtasks := microtasks s @ [t]\<rparr>"

text \<open>\<open>enqueueRender = withEnqueue(render)\<close> (render.ts).\<close>

definition enqueueRender :: "state \<Rightarrow> state" where
  "enqueueRender s =
     (if render_scheduled s then s else enqueue RenderTask (s\<lparr>render_scheduled := True\<rparr>))"

text \<open>\<open>flushEffects = withEnqueue(...)\<close> (render.ts): the call only schedules the loop.\<close>

definition flushEffects :: "state \<Rightarrow> state" where
  "flushEffects s =
     (if flush_scheduled s then s else enqueue FlushTask (s\<lparr>flush_scheduled := True\<rparr>))"

section \<open>Hooks (context.ts, hooks.ts)\<close>

definition currentPath :: "state \<Rightarrow> error + string" where
  "currentPath s =
     (if length (componentStack s) = 0 then Inl HookOutsideComponent
      else Inr (componentStack s ! (length (componentStack s) - 1)))"

definition currentCursor :: "state \<Rightarrow> error + nat" where
  "currentCursor s =
     (case currentPath s of
        Inl e \<Rightarrow> Inl e
      | Inr path \<Rightarrow> Inr (case map_of (hooks_cursor s) path of None \<Rightarrow> 0 | Some c \<Rightarrow> c))"

text \<open>
  \<open>this.state.get(path) ?? []\<close>: the stored array, or a new empty array that nothing
  but the caller refers to.
\<close>

definition currentHooks :: "state \<Rightarrow> (error + nat) \<times> state" where
  "currentHooks s =
     (case currentPath s of
        Inl e \<Rightarrow> (Inl e, s)
      | Inr path \<Rightarrow>
          (case map_of (hooks_state s) path of
             Some r \<Rightarrow> (Inr r, s)
           | None \<Rightarrow> (Inr (next_ref s),
                       s\<lparr>heap := (heap s)(next_ref s := []), next_ref := next_ref s + 1\<rparr>)))"

definition cleanupUnusedHooks :: "state \<Rightarrow> state" where
  "cleanupUnusedHooks s =
     (let pathsToRemove = filter (\<lambda>path. path \<notin> visited s) (map fst (hooks_state s));
          s1 = foldl (\<lambda>s path. s\<lparr>hooks_state := AList.delete path (hooks_state s),
                                  hooks_cursor := AList.delete path (hooks_cursor s)\<rparr>)
                 s pathsToRemove
      in s1\<lparr>visited := {}\<rparr>)"

definition useState :: "env \<Rightarrow> jsval \<Rightarrow> state \<Rightarrow> (error + jsval \<times> setter) \<times> state" where
  "useState env initialValue s =
     (case currentPath s of
        Inl e \<Rightarrow> (Inl e, s)
      | Inr path \<Rightarrow>
     (case currentCursor s of
        Inl e \<Rightarrow> (Inl e, s)
      | Inr cursor \<Rightarrow>
     (case currentHooks s of
        (Inl e, s1) \<Rightarrow> (Inl e, s1)
      | (Inr hooks, s1) \<Rightarrow>
     (case (if cursor \<ge> length (heap s1 hooks)
            then (case (if typeof initialValue = TFunction then call env initialValue [] s1
                        else (Inr initialValue, s1)) of
                    (Inl e, s2) \<Rightarrow> (Inl e, s2)
                  | (Inr v, s2) \<Rightarrow>
                      (Inr (), s2\<lparr>heap := (heap s2)(hooks := heap s2 hooks @ [v])\<rparr>))
            else (Inr (), s1)) of
        (Inl e, s3) \<Rightarrow> (Inl e, s3)
      | (Inr u, s3) \<Rightarrow>
          (let st = js_get (heap s3 hooks) cursor;
               setState = \<lparr>s_hooks = hooks, s_cursor = cursor, s_state = st\<rparr>
           in (Inr (st, setState),
               s3\<lparr>hooks_cursor := AList.update path (cursor + 1) (hooks_cursor s3)\<rparr>))))))"

text \<open>The setter \<open>setState\<close> created inside \<open>useState\<close>, applied to \<open>nextValue\<close>.\<close>

definition setState :: "env \<Rightarrow> setter \<Rightarrow> jsval \<Rightarrow> state \<Rightarrow> (error + unit) \<times> state" where
  "setState env st nextValue s =
     (case (if typeof nextValue = TFunction then call env nextValue [s_state st] s
            else (Inr nextValue, s)) of
        (Inl e, s1) \<Rightarrow> (Inl e, s1)
      | (Inr newValue, s1) \<Rightarrow>
          if Object_is (s_state st) newValue then (Inr (), s1)
          else (Inr (),
                enqueueRender
                  (s1\<lparr>heap := (heap s1)(s_hooks st :=
                                  js_set (heap s1 (s_hooks st)) (s_cursor st) newValue)\<rparr>)))"

text \<open>
  Modelled from the spec: \<open>HookTypes.EFFECT\<close> of constants.ts is not in src/; it is the
  tag of an effect slot.
\<close>

definition HookTypes_EFFECT :: jsval where
  "HookTypes_EFFECT = Str ''effect''"

text \<open>
  An effect slot is the object \<open>{kind, deps, cleanup, effect}\<close>.  It lives in one array
  slot only, so it is kept there by value and its identity is not tracked (identity 0).
\<close>

definition effectHook :: "jsval \<Rightarrow> jsval \<Rightarrow> jsval \<Rightarrow> jsval" where
  "effectHook deps cleanup effect =
     Obj 0 [(''kind'', HookTypes_EFFECT), (''deps'', deps), (''cleanup'', cleanup),
            (''effect'', effect)]"

text \<open>
  \<open>hooks[cursor] && typeof hooks[cursor] === "object" && "kind" in hooks[cursor]\<close>,
  with \<open>cursor < hooks.length\<close>.
\<close>

definition prevHook_of :: "jsval list \<Rightarrow> nat \<Rightarrow> jsval option" where
  "prevHook_of hooks cursor =
     (if cursor < length hooks \<and> truthy (js_get hooks cursor)
         \<and> typeof (js_get hooks cursor) = TObject
         \<and> has_key (own_entries (js_get hooks cursor)) ''kind''
      then Some (js_get hooks cursor) else None)"

definition field :: "jsval \<Rightarrow> string \<Rightarrow> jsval" where
  "field v k = lookup (own_entries v) k"

fun set_field :: "jsval \<Rightarrow> string \<Rightarrow> jsval \<Rightarrow> jsval" where
  "set_field (Obj i fs) k v = Obj i (AList.update k v fs)"
| "set_field w k v = w"

definition useEffect :: "jsval \<Rightarrow> jsval \<Rightarrow> state \<Rightarrow> (error + unit) \<times> state" where
  "useEffect effect deps s =
     (case currentPath s of
        Inl e \<Rightarrow> (Inl e, s)
      | Inr path \<Rightarrow>
     (case currentCursor s of
        Inl e \<Rightarrow> (Inl e, s)
      | Inr cursor \<Rightarrow>
     (case currentHooks s of
        (Inl e, s1) \<Rightarrow> (Inl e, s1)
      | (Inr hooks, s1) \<Rightarrow>
     (let prevHook = prevHook_of (heap s1 hooks) cursor;
          shouldRun =
            (case prevHook of
               None \<Rightarrow> True
             | Some ph \<Rightarrow> deps = Undefined \<or> \<not> shallowEquals (field ph ''deps'') deps);
          s4 =
            (if shouldRun then
               (let s2 = (case prevHook of
                            None \<Rightarrow> s1
                          | Some ph \<Rightarrow>
                              if truthy (field ph ''cleanup'')
                              then s1\<lparr>effects_queue := effects_queue s1 @
                                        [CleanupItem path cursor (field ph ''cleanup'')]\<rparr>
                              else s1);
                    hook = effectHook (if isNullOrUndefined deps then Null else deps) Null effect;
                    s3 = (if cursor \<ge> length (heap s2 hooks)
                          then s2\<lparr>heap := (heap s2)(hooks := heap s2 hooks @ [hook])\<rparr>
                          else s2\<lparr>heap := (heap s2)(hooks := js_set (heap s2 hooks) cursor hook)\<rparr>)
                in s3\<lparr>effects_queue := effects_queue s3 @
                        [EffectItem path cursor
                           \<lparr>e_effect = effect, e_hooks = hooks, e_cursor = cursor\<rparr>]\<rparr>)
             else
               (if cursor \<ge> length (heap s1 hooks)
                then (case prevHook of
                        None \<Rightarrow> s1
                      | Some ph \<Rightarrow> s1\<lparr>heap := (heap s1)(hooks := heap s1 hooks @ [ph])\<rparr>)
                else s1))
      in (Inr (), s4\<lparr>hooks_cursor := AList.update path (cursor + 1) (hooks_cursor s4)\<rparr>)))))"

text \<open>
  The closure queued by \<open>useEffect\<close>, when it is run: the effect body is called, and a
  function it returns is stored as the cleanup of whatever object sits at \<open>hooks[cursor]\<close>
  by then.  Storing a property on a primitive that sits there is not modelled (the slot
  is left as it is).
\<close>

definition run_effect :: "env \<Rightarrow> effect_closure \<Rightarrow> state \<Rightarrow> (error + unit) \<times> state" where
  "run_effect env c s =
     (case call env (e_effect c) [] s of
        (Inl e, s1) \<Rightarrow> (Inl e, s1)
      | (Inr cleanup, s1) \<Rightarrow>
          if typeof cleanup = TFunction then
            (let currentHook = js_get (heap s1 (e_hooks c)) (e_cursor c) in
             if truthy currentHook
             then (Inr (), s1\<lparr>heap := (heap s1)(e_hooks c :=
                            js_set (heap s1 (e_hooks c)) (e_cursor c)
                              (set_field currentHook ''cleanup'' cleanup))\<rparr>)
             else (Inr (), s1))
          else (Inr (), s1))"

section \<open>Host document\<close>

text \<open>
  The DOM calls the runtime makes, on a store of host nodes addressed by number.  A node
  has at most one parent; appending or inserting a node that is already in the document
  moves it.  \<open>insertBefore\<close> raises \<open>NotFoundError\<close> when the reference node is not a
  child of the parent.
\<close>

definition blank_node :: dnode where
  "blank_node =
     \<lparr>tagName = None, nodeValue = Null, parentNode = None, childNodes = [],
      className = Str [], style = [], attributes = [], properties = [], listeners = []\<rparr>"

definition upd_node :: "nat \<Rightarrow> (dnode \<Rightarrow> dnode) \<Rightarrow> state \<Rightarrow> state" where
  "upd_node n f s = s\<lparr>nodes := (nodes s)(n := f (nodes s n))\<rparr>"

definition createTextNode :: "jsval \<Rightarrow> state \<Rightarrow> nat \<times> state" where
  "createTextNode v s =
     (next_node s,
      s\<lparr>nodes := (nodes s)(next_node s := blank_node\<lparr>nodeValue := v\<rparr>),
        next_node := next_node s + 1\<rparr>)"

definition createElement :: "string \<Rightarrow> state \<Rightarrow> nat \<times> state" where
  "createElement t s =
     (next_node s,
      s\<lparr>nodes := (nodes s)(next_node s := blank_node\<lparr>tagName := Some t\<rparr>),
        next_node := next_node s + 1\<rparr>)"

definition detach :: "nat \<Rightarrow> state \<Rightarrow> state" where
  "detach n s =
     (case parentNode (nodes s n) of
        None \<Rightarrow> s
      | Some p \<Rightarrow>
          upd_node n (\<lambda>d. d\<lparr>parentNode := None\<rparr>)
            (upd_node p (\<lambda>d. d\<lparr>childNodes := remove1 n (childNodes d)\<rparr>) s))"

definition appendChild :: "nat \<Rightarrow> nat \<Rightarrow> state \<Rightarrow> state" where
  "appendChild p n s =
     upd_node n (\<lambda>d. d\<lparr>parentNode := Some p\<rparr>)
       (upd_node p (\<lambda>d. d\<lparr>childNodes := childNodes d @ [n]\<rparr>) (detach n s))"

fun insert_before :: "nat \<Rightarrow> nat \<Rightarrow> nat list \<Rightarrow> nat list" where
  "insert_before r n [] = [n]"
| "insert_before r n (x # xs) = (if x = r then n # x # xs else x # insert_before r n xs)"

definition insertBefore :: "nat \<Rightarrow> nat \<Rightarrow> nat option \<Rightarrow> state \<Rightarrow> (error + unit) \<times> state" where
  "insertBefore p n ref s =
     (case ref of
        None \<Rightarrow> (Inr (), appendChild p n s)
      | Some r \<Rightarrow>
          if parentNode (nodes s r) \<noteq> Some p then (Inl NotFoundError, s)
          else if r = n then (Inr (), s)
          else (Inr (),
                upd_node n (\<lambda>d. d\<lparr>parentNode := Some p\<rparr>)
                  (upd_node p (\<lambda>d. d\<lparr>childNodes := insert_before r n (childNodes d)\<rparr>)
                     (detach n s))))"

definition removeChild :: "nat \<Rightarrow> nat \<Rightarrow> state \<Rightarrow> state" where
  "removeChild p n s = detach n s"

fun next_after :: "nat \<Rightarrow> nat list \<Rightarrow> nat option" where
  "next_after n [] = None"
| "next_after n [x] = None"
| "next_after n (x # y # ys) = (if x = n then Some y else next_after n (y # ys))"

definition nextSibling :: "nat \<Rightarrow> state \<Rightarrow> nat option" where
  "nextSibling n s =
     (case parentNode (nodes s n) of
        None \<Rightarrow> None
      | Some p \<Rightarrow> next_after n (childNodes (nodes s p)))"

text \<open>\<open>container.innerHTML = ""\<close>: the container loses all its children.\<close>

definition clear_innerHTML :: "nat \<Rightarrow> state \<Rightarrow> state" where
  "clear_innerHTML c s =
     upd_node c (\<lambda>d. d\<lparr>childNodes := []\<rparr>)
       (foldl (\<lambda>s n. upd_node n (\<lambda>d. d\<lparr>parentNode := None\<rparr>) s) s (childNodes (nodes s c)))"

definition addEventListener :: "nat \<Rightarrow> string \<Rightarrow> jsval \<Rightarrow> state \<Rightarrow> state" where
  "addEventListener n ev f s =
     upd_node n (\<lambda>d. if List.member (listeners d) (ev, f) then d
                      else d\<lparr>listeners := listeners d @ [(ev, f)]\<rparr>) s"

definition removeEventListener :: "nat \<Rightarrow> string \<Rightarrow> jsval \<Rightarrow> state \<Rightarrow> state" where
  "removeEventListener n ev f s =
     upd_node n (\<lambda>d. d\<lparr>listeners := remove1 (ev, f) (listeners d)\<rparr>) s"

definition setAttribute :: "nat \<Rightarrow> string \<Rightarrow> jsval \<Rightarrow> state \<Rightarrow> state" where
  "setAttribute n k v s = upd_node n (\<lambda>d. d\<lparr>attributes := AList.update k v (attributes d)\<rparr>) s"

definition removeAttribute :: "nat \<Rightarrow> string \<Rightarrow> state \<Rightarrow> state" where
  "removeAttribute n k s = upd_node n (\<lambda>d. d\<lparr>attributes := AList.delete k (attributes d)\<rparr>) s"

text \<open>\<open>dom.style[k] = v\<close>: the empty string removes the declaration.\<close>

definition set_style :: "nat \<Rightarrow> string \<Rightarrow> jsval \<Rightarrow> state \<Rightarrow> state" where
  "set_style n k v s =
     upd_node n (\<lambda>d. d\<lparr>style := (if v = Str [] then AList.delete k (style d)
                                   else AList.update k v (style d))\<rparr>) s"

text \<open>\<open>dom[k] = v\<close> for any other key: recorded in a table of properties.\<close>

definition set_property :: "nat \<Rightarrow> string \<Rightarrow> jsval \<Rightarrow> state \<Rightarrow> state" where
  "set_property n k v s = upd_node n (\<lambda>d. d\<lparr>properties := AList.update k v (properties d)\<rparr>) s"

definition toLowerChar :: "char \<Rightarrow> char" where
  "toLowerChar c =
     (case map_of (zip ''ABCDEFGHIJKLMNOPQRSTUVWXYZ'' ''abcdefghijklmnopqrstuvwxyz'') c of
        Some l \<Rightarrow> l
      | None \<Rightarrow> c)"

definition toLowerCase :: "string \<Rightarrow> string" where
  "toLowerCase str = map toLowerChar str"

definition startsWith :: "string \<Rightarrow> string \<Rightarrow> bool" where
  "startsWith str pre = (take (length pre) str = pre)"

text \<open>\<open>k in v\<close>: a \<open>TypeError\<close> on a primitive.\<close>

fun in_op :: "string \<Rightarrow> jsval \<Rightarrow> error + bool" where
  "in_op k (Obj i fs) = Inr (has_key fs k)"
| "in_op k (Arr i xs) = Inr (has_key (own_entries (Arr i xs)) k)"
| "in_op k (Fn f) = Inr False"
| "in_op k v = Inl TypeError"

section \<open>dom.ts\<close>

definition setDomProp :: "nat \<Rightarrow> (string \<times> jsval) list \<Rightarrow> string \<Rightarrow> state \<Rightarrow> state" where
  "setDomProp domEl props key s =
     (if key = ''children'' then s
      else if startsWith key ''on'' \<and> typeof (lookup props key) = TFunction
        then addEventListener domEl (toLowerCase (drop 2 key)) (lookup props key) s
      else if key = ''className''
        then upd_node domEl (\<lambda>d. d\<lparr>className := (if truthy (lookup props key)
                                                 then lookup props key else Str [])\<rparr>) s
      else if key = ''style'' \<and> typeof (lookup props key) = TObject
        then foldl (\<lambda>s kv. set_style domEl (fst kv) (snd kv) s) s (own_entries (lookup props key))
      else if startsWith key ''data-''
        then setAttribute domEl key (lookup props key) s
      else set_property domEl key (lookup props key) s)"

definition setDomProps :: "nat \<Rightarrow> (string \<times> jsval) list \<Rightarrow> state \<Rightarrow> state" where
  "setDomProps domEl props s = foldl (\<lambda>s key. setDomProp domEl props key s) s (map fst props)"

text \<open>The inner loop of \<open>updateDomProps\<close> over the keys of the previous style object.\<close>

fun clearStyles :: "nat \<Rightarrow> string list \<Rightarrow> jsval \<Rightarrow> state \<Rightarrow> (error + unit) \<times> state" where
  "clearStyles domEl [] nextStyle s = (Inr (), s)"
| "clearStyles domEl (styleKey # ks) nextStyle s =
     (if \<not> truthy nextStyle then clearStyles domEl ks nextStyle (set_style domEl styleKey (Str []) s)
      else (case in_op styleKey nextStyle of
              Inl e \<Rightarrow> (Inl e, s)
            | Inr b \<Rightarrow>
                clearStyles domEl ks nextStyle
                  (if \<not> b then set_style domEl styleKey (Str []) s else s)))"

text \<open>The body of the first \<open>forEach\<close> of \<open>updateDomProps\<close>, for one key of \<open>prevProps\<close>.\<close>

definition removeOldProp ::
  "nat \<Rightarrow> (string \<times> jsval) list \<Rightarrow> (string \<times> jsval) list \<Rightarrow> string \<Rightarrow> state
     \<Rightarrow> (error + unit) \<times> state" where
  "removeOldProp domEl prevProps nextProps key s =
     (if key = ''children'' then (Inr (), s)
      else if startsWith key ''on'' \<and> typeof (lookup prevProps key) = TFunction
        then (Inr (), removeEventListener domEl (toLowerCase (drop 2 key)) (lookup prevProps key) s)
      else if key = ''className'' then (Inr (), s)
      else if key = ''style'' \<and> typeof (lookup prevProps key) = TObject
        then (if lookup prevProps key = Null then (Inl TypeError, s)
              else clearStyles domEl (map fst (own_entries (lookup prevProps key)))
                     (lookup nextProps key) s)
      else if startsWith key ''data-''
        then (Inr (), if \<not> has_key nextProps key then removeAttribute domEl key s else s)
      else if \<not> has_key nextProps key then (Inr (), set_property domEl key Undefined s)
      else (Inr (), s))"

fun removeOldProps ::
  "nat \<Rightarrow> (string \<times> jsval) list \<Rightarrow> (string \<times> jsval) list \<Rightarrow> string list \<Rightarrow> state
     \<Rightarrow> (error + unit) \<times> state" where
  "removeOldProps domEl prevProps nextProps [] s = (Inr (), s)"
| "removeOldProps domEl prevProps nextProps (key # keys) s =
     (case removeOldProp domEl prevProps nextProps key s of
        (Inl e, s1) \<Rightarrow> (Inl e, s1)
      | (Inr u, s1) \<Rightarrow> removeOldProps domEl prevProps nextProps keys s1)"

definition updateDomProps ::
  "nat \<Rightarrow> (string \<times> jsval) list \<Rightarrow> (string \<times> jsval) list \<Rightarrow> state
     \<Rightarrow> (error + unit) \<times> state" where
  "updateDomProps domEl prevProps nextProps s =
     (case removeOldProps domEl prevProps nextProps (map fst prevProps) s of
        (Inl e, s1) \<Rightarrow> (Inl e, s1)
      | (Inr u, s1) \<Rightarrow> (Inr (), setDomProps domEl nextProps s1))"

fun getDomNodes :: "inst option \<Rightarrow> nat list" where
  "getDomNodes None = []"
| "getDomNodes (Some (Instance k d n cs ky p)) =
     (if k = TEXT \<or> k = HOST then (case d of Some x \<Rightarrow> [x] | None \<Rightarrow> [])
      else concat (map getDomNodes cs))"

text \<open>The first non-null result of a \<open>for ... of\<close> loop that returns on the first hit.\<close>

fun first_some :: "'a option list \<Rightarrow> 'a option" where
  "first_some [] = None"
| "first_some (x # xs) = (case x of Some y \<Rightarrow> Some y | None \<Rightarrow> first_some xs)"

fun getFirstDom :: "inst option \<Rightarrow> nat option" where
  "getFirstDom None = None"
| "getFirstDom (Some (Instance k d n cs ky p)) =
     (if k = TEXT \<or> k = HOST then d else first_some (map getFirstDom cs))"

definition getFirstDomFromChildren :: "inst option list \<Rightarrow> nat option" where
  "getFirstDomFromChildren children = first_some (map getFirstDom children)"

text \<open>The second loop of \<open>insertInstance\<close>: each further node goes after the one before it.\<close>

fun insertRest :: "nat \<Rightarrow> nat \<Rightarrow> nat list \<Rightarrow> state \<Rightarrow> (error + unit) \<times> state" where
  "insertRest parentDom prev [] s = (Inr (), s)"
| "insertRest parentDom prev (n # ns) s =
     (case insertBefore parentDom n (nextSibling prev s) s of
        (Inl e, s1) \<Rightarrow> (Inl e, s1)
      | (Inr u, s1) \<Rightarrow> insertRest parentDom n ns s1)"

definition insertInstance ::
  "nat \<Rightarrow> inst option \<Rightarrow> nat option \<Rightarrow> state \<Rightarrow> (error + unit) \<times> state" where
  "insertInstance parentDom instance anchor s =
     (case instance of
        None \<Rightarrow> (Inr (), s)
      | Some i \<Rightarrow>
          (case getDomNodes instance of
             [] \<Rightarrow> (Inr (), s)
           | firstDom # others \<Rightarrow>
               (case anchor of
                  Some a \<Rightarrow>
                    (case insertBefore parentDom firstDom (Some a) s of
                       (Inl e, s1) \<Rightarrow> (Inl e, s1)
                     | (Inr u, s1) \<Rightarrow> insertRest parentDom firstDom others s1)
                | None \<Rightarrow>
                    (Inr (), foldl (\<lambda>s n. appendChild parentDom n s) s (firstDom # others)))))"

definition removeInstance :: "nat \<Rightarrow> inst option \<Rightarrow> state \<Rightarrow> state" where
  "removeInstance parentDom instance s =
     foldl (\<lambda>s n. if parentNode (nodes s n) = Some parentDom then removeChild parentDom n s else s)
       s (getDomNodes instance)"

section \<open>elements.ts\<close>

text \<open>
  Modelled from the spec: \<open>isEmptyValue\<close> of utils is not in src/.  The spec (4.1) says it
  covers null, undefined, booleans and empty-string equivalents; a VNode object is none
  of these.
\<close>

definition isEmptyValue :: "vnode \<Rightarrow> bool" where
  "isEmptyValue child = False"

text \<open>
  Modelled from the spec: the symbols \<open>TEXT_ELEMENT\<close> and \<open>Fragment\<close> of constants.ts are
  not in src/; \<open>String(symbol)\<close> is \<open>Symbol(description)\<close>.
\<close>

fun symbol_string :: "vtype \<Rightarrow> string" where
  "symbol_string TEXT_ELEMENT = ''Symbol(TEXT_ELEMENT)''"
| "symbol_string Fragment = ''Symbol(Fragment)''"
| "symbol_string (OtherSymbol n) = ''Symbol('' @ string_of_nat n @ '')''"
| "symbol_string t = []"

definition createChildPath ::
  "env \<Rightarrow> string \<Rightarrow> string option \<Rightarrow> nat \<Rightarrow> vtype \<Rightarrow> vnode list \<Rightarrow> string" where
  "createChildPath env parentPath key index nodeType siblings =
     (case key of
        Some k \<Rightarrow> parentPath @ ''k'' @ k
      | None \<Rightarrow>
          (let typeIndex =
                 (if nodeType \<noteq> Host []
                  then length (filter (\<lambda>sib. vtype sib = nodeType) (take index siblings))
                  else 0);
               typeName =
                 (case nodeType of
                    Host t \<Rightarrow> t
                  | Component c \<Rightarrow> (if comp_name env c \<noteq> [] then comp_name env c
                                    else ''Component'')
                  | other \<Rightarrow> symbol_string other)
           in parentPath @ ''.i'' @ string_of_nat index @ ''.c'' @ typeName @ ''_''
                @ string_of_nat typeIndex))"

section \<open>reconciler.ts\<close>

text \<open>
  A component may render a tree of any depth, so \<open>reconcile\<close> counts its own nesting
  down from a bound \<open>fuel\<close>: \<open>None\<close> means the bound was too small.  The functions that
  \<open>reconcile\<close> calls and that call it back take the \<open>reconcile\<close> of the next level as
  their first argument \<open>rec\<close>.  An \<open>Instance\<close> is a value: where the source changes an
  instance in place and returns it, the model returns the changed instance.
\<close>

type_synonym 'a fres = "((error + 'a) \<times> state) option"

type_synonym reconciler =
  "nat \<Rightarrow> inst option \<Rightarrow> vnode option \<Rightarrow> string \<Rightarrow> state \<Rightarrow> (inst option) fres"

definition bind_f :: "'a fres \<Rightarrow> ('a \<Rightarrow> state \<Rightarrow> 'b fres) \<Rightarrow> 'b fres" where
  "bind_f m f =
     (case m of
        None \<Rightarrow> None
      | Some (Inl e, s) \<Rightarrow> Some (Inl e, s)
      | Some (Inr x, s) \<Rightarrow> f x s)"

text \<open>\<open>try { m } finally { fin }\<close>.\<close>

definition finally_f :: "'a fres \<Rightarrow> (state \<Rightarrow> state) \<Rightarrow> 'a fres" where
  "finally_f m fin = (case m of None \<Rightarrow> None | Some (r, s) \<Rightarrow> Some (r, fin s))"

definition nth_or_null :: "'a option list \<Rightarrow> nat \<Rightarrow> 'a option" where
  "nth_or_null xs i = (if i < length xs then xs ! i else None)"

definition nth_opt :: "'a list \<Rightarrow> nat \<Rightarrow> 'a option" where
  "nth_opt xs i = (if i < length xs then Some (xs ! i) else None)"

text \<open>\<open>Component(node.props)\<close>: a \<open>TypeError\<close> when the type is not a function.\<close>

definition call_component :: "env \<Rightarrow> vnode \<Rightarrow> state \<Rightarrow> (error + vnode option) \<times> state" where
  "call_component env node s =
     (case vtype node of
        Component c \<Rightarrow> comps env c (vprops node) (vchildren node) s
      | _ \<Rightarrow> (Inl TypeError, s))"

text \<open>
  \<open>mountComponent\<close> up to its \<open>try\<close>: the path is pushed and marked visited, and a slot
  list and a cursor are created for it unless they exist.
\<close>

definition mountComponent_enter :: "string \<Rightarrow> state \<Rightarrow> state" where
  "mountComponent_enter path s =
     (let s1 = s\<lparr>componentStack := componentStack s @ [path], visited := insert path (visited s)\<rparr>;
          s2 = (if map_of (hooks_state s1) path = None
                then s1\<lparr>hooks_state := AList.update path (next_ref s1) (hooks_state s1),
                        heap := (heap s1)(next_ref s1 := []), next_ref := next_ref s1 + 1\<rparr>
                else s1)
      in if map_of (hooks_cursor s2) path = None
         then s2\<lparr>hooks_cursor := AList.update path 0 (hooks_cursor s2)\<rparr>
         else s2)"

definition mountComponent :: "reconciler \<Rightarrow> env \<Rightarrow> nat \<Rightarrow> vnode \<Rightarrow> string \<Rightarrow> state \<Rightarrow> (inst option) fres" where
  "mountComponent rec env parentDom node path s =
     finally_f
       (case call_component env node (mountComponent_enter path s) of
          (Inl e, s4) \<Rightarrow> Some (Inl e, s4)
        | (Inr childNode, s4) \<Rightarrow>
            (case childNode of
               None \<Rightarrow> Some (Inr (Some (Instance COMPONENT None node [] (vkey node) path)), s4)
             | Some cn \<Rightarrow>
                 if isEmptyValue cn
                 then Some (Inr (Some (Instance COMPONENT None node [] (vkey node) path)), s4)
                 else bind_f (rec parentDom None (Some cn) path s4)
                        (\<lambda>childInstance s5.
                           Some (Inr (Some (Instance COMPONENT None node [childInstance]
                                              (vkey node) path)), s5))))
       (\<lambda>s. s\<lparr>componentStack := butlast (componentStack s)\<rparr>)"

text \<open>
  \<open>updateComponent\<close> up to its \<open>try\<close>: the path is pushed and marked visited, and its
  cursor is set to 0.
\<close>

definition updateComponent_enter :: "string \<Rightarrow> state \<Rightarrow> state" where
  "updateComponent_enter path s =
     (let s1 = s\<lparr>componentStack := componentStack s @ [path], visited := insert path (visited s)\<rparr>
      in s1\<lparr>hooks_cursor := AList.update path 0 (hooks_cursor s1)\<rparr>)"

definition updateComponent ::
  "reconciler \<Rightarrow> env \<Rightarrow> nat \<Rightarrow> inst \<Rightarrow> vnode \<Rightarrow> string \<Rightarrow> state \<Rightarrow> (inst option) fres" where
  "updateComponent rec env parentDom instance node path s =
     finally_f
       (case call_component env node (updateComponent_enter path s) of
          (Inl e, s3) \<Rightarrow> Some (Inl e, s3)
        | (Inr childNode, s3) \<Rightarrow>
            (let prevChild = nth_or_null (inst_children instance) 0 in
             bind_f (case childNode of
                       None \<Rightarrow> Some (Inr None, s3)
                     | Some cn \<Rightarrow> if isEmptyValue cn then Some (Inr None, s3)
                                  else rec parentDom prevChild (Some cn) path s3)
               (\<lambda>nextChild s4.
                  Some (Inr (Some (Instance (inst_kind instance) (inst_dom instance) node
                                     [nextChild] (inst_key instance) path)),
                        if nextChild = None \<and> prevChild \<noteq> None
                        then removeInstance parentDom prevChild s4 else s4))))
       (\<lambda>s. s\<lparr>componentStack := butlast (componentStack s)\<rparr>)"

text \<open>\<open>children.map((child, index) => ...)\<close> of \<open>mount\<close>, from \<open>index\<close> on.\<close>

fun mountChildren ::
  "reconciler \<Rightarrow> env \<Rightarrow> nat \<Rightarrow> string \<Rightarrow> vnode list \<Rightarrow> nat \<Rightarrow> vnode list \<Rightarrow> state
     \<Rightarrow> (inst option list) fres" where
  "mountChildren rec env parentDom path children index [] s = Some (Inr [], s)"
| "mountChildren rec env parentDom path children index (child # rest) s =
     bind_f (if isEmptyValue child then Some (Inr None, s)
             else rec parentDom None (Some child)
                    (createChildPath env path (vkey child) index (vtype child) children) s)
       (\<lambda>childInstance s1.
          bind_f (mountChildren rec env parentDom path children (Suc index) rest s1)
            (\<lambda>others s2. Some (Inr (childInstance # others), s2)))"

definition nodeValue_of :: "vnode \<Rightarrow> jsval" where
  "nodeValue_of node =
     (if isNullOrUndefined (lookup (vprops node) ''nodeValue'') then Str []
      else lookup (vprops node) ''nodeValue'')"

definition lift_f :: "(error + 'a) \<times> state \<Rightarrow> 'a fres" where
  "lift_f r = Some r"

definition mount :: "reconciler \<Rightarrow> env \<Rightarrow> nat \<Rightarrow> vnode \<Rightarrow> string \<Rightarrow> state \<Rightarrow> (inst option) fres" where
  "mount rec env parentDom node path s =
     (case vtype node of
        TEXT_ELEMENT \<Rightarrow>
          (case createTextNode (nodeValue_of node) s of
             (textNode, s1) \<Rightarrow>
               (let instance = Instance TEXT (Some textNode) node [] (vkey node) path in
                bind_f (lift_f (insertInstance parentDom (Some instance) None s1))
                  (\<lambda>u s2. Some (Inr (Some instance), s2))))
      | Host t \<Rightarrow>
          (case createElement t s of
             (domEl, s1) \<Rightarrow>
               (let s2 = setDomProps domEl (vprops node) s1;
                    children = filter (\<lambda>child. \<not> isEmptyValue child) (vchildren node) in
                bind_f (mountChildren rec env domEl path children 0 children s2)
                  (\<lambda>cs s3.
                     (let instance = Instance HOST (Some domEl) node cs (vkey node) path in
                      bind_f (lift_f (insertInstance parentDom (Some instance) None s3))
                        (\<lambda>u s4. Some (Inr (Some instance), s4))))))
      | Fragment \<Rightarrow>
          (let children = filter (\<lambda>child. \<not> isEmptyValue child) (vchildren node) in
           bind_f (mountChildren rec env parentDom path children 0 children s)
             (\<lambda>cs s1. Some (Inr (Some (Instance FRAGMENT None node cs (vkey node) path)), s1)))
      | Component c \<Rightarrow> mountComponent rec env parentDom node path s
      | OtherSymbol n \<Rightarrow> Some (Inr None, s))"

text \<open>
  The block of \<open>reconcileChildren\<close> under ``insert a newly mounted child at the right
  place'': it acts when there was no previous child at the index, a later previous
  sibling has a host node, and the first host node of the new child is not under
  \<open>parentDom\<close>.
\<close>

definition insertMounted ::
  "nat \<Rightarrow> inst option \<Rightarrow> inst option \<Rightarrow> nat option \<Rightarrow> state \<Rightarrow> (error + unit) \<times> state" where
  "insertMounted parentDom childInstance prevChild anchor s =
     (if childInstance \<noteq> None \<and> prevChild = None \<and> anchor \<noteq> None then
        (case getFirstDom childInstance of
           None \<Rightarrow> (Inr (), s)
         | Some firstDom \<Rightarrow>
             if parentNode (nodes s firstDom) \<noteq> Some parentDom
             then insertInstance parentDom childInstance anchor s
             else (Inr (), s))
      else (Inr (), s))"

text \<open>The loop of \<open>reconcileChildren\<close> over the indices \<open>i\<close> still to do.\<close>

fun reconcileChildren_loop ::
  "reconciler \<Rightarrow> env \<Rightarrow> nat \<Rightarrow> inst option list \<Rightarrow> vnode list \<Rightarrow> string \<Rightarrow> nat list
     \<Rightarrow> inst option list \<Rightarrow> state \<Rightarrow> (inst option list) fres" where
  "reconcileChildren_loop rec env parentDom prevChildren nextChildren path [] newChildren s =
     Some (Inr newChildren, s)"
| "reconcileChildren_loop rec env parentDom prevChildren nextChildren path (i # is) newChildren s =
     (let prevChild = nth_or_null prevChildren i;
          nextChild = nth_opt nextChildren i in
      if nextChild = None \<or> isEmptyValue (the nextChild) then
        reconcileChildren_loop rec env parentDom prevChildren nextChildren path is
          (newChildren @ [None])
          (if prevChild \<noteq> None then removeInstance parentDom prevChild s else s)
      else
        (let nextSibling = getFirstDomFromChildren (drop (i + 1) prevChildren);
             childPath = createChildPath env path (vkey (the nextChild)) i
                           (vtype (the nextChild)) nextChildren in
         bind_f (rec parentDom prevChild nextChild childPath s)
           (\<lambda>childInstance s1.
              bind_f (lift_f (insertMounted parentDom childInstance prevChild nextSibling s1))
                (\<lambda>u s2.
                   reconcileChildren_loop rec env parentDom prevChildren nextChildren path is
                     (newChildren @ [childInstance]) s2))))"

definition reconcileChildren ::
  "reconciler \<Rightarrow> env \<Rightarrow> nat \<Rightarrow> inst \<Rightarrow> vnode \<Rightarrow> string \<Rightarrow> state \<Rightarrow> inst fres" where
  "reconcileChildren rec env parentDom instance node path s =
     (let prevChildren = inst_children instance;
          nextChildren = filter (\<lambda>child. \<not> isEmptyValue child) (vchildren node);
          maxLength = max (length prevChildren) (length nextChildren) in
      bind_f (reconcileChildren_loop rec env parentDom prevChildren nextChildren path
                [0..<maxLength] [] s)
        (\<lambda>newChildren s1.
           Some (Inr (Instance (inst_kind instance) (inst_dom instance) (inst_node instance)
                        newChildren (inst_key instance) (inst_path instance)), s1)))"

text \<open>
  The body of \<open>reconcile\<close>; \<open>rec\<close> stands for its recursive calls.  In the update path
  \<open>instance.node\<close> is overwritten first, so the \<open>instance.node.props\<close> that
  \<open>updateDomProps\<close> receives as previous props are the props of the new node.  A HOST
  instance always has its element (\<open>mount\<close> creates it); the model raises a \<open>TypeError\<close>
  for one without.
\<close>

definition reconcile_body :: "reconciler \<Rightarrow> env \<Rightarrow> reconciler" where
  "reconcile_body rec env parentDom instance node path s =
     (case node of
        None \<Rightarrow>
          Some (Inr None, if instance \<noteq> None then removeInstance parentDom instance s else s)
      | Some n \<Rightarrow>
          (case instance of
             None \<Rightarrow> mount rec env parentDom n path s
           | Some i0 \<Rightarrow>
               if vtype (inst_node i0) \<noteq> vtype n \<or> inst_key i0 \<noteq> vkey n
               then mount rec env parentDom n path (removeInstance parentDom instance s)
               else
                 (let i = Instance (inst_kind i0) (inst_dom i0) n (inst_children i0)
                            (inst_key i0) path in
                  (case vtype n of
                     TEXT_ELEMENT \<Rightarrow>
                       (let newValue = nodeValue_of n in
                        Some (Inr (Some i),
                              (case inst_dom i of
                                 None \<Rightarrow> s
                               | Some textNode \<Rightarrow>
                                   if \<not> Object_is (nodeValue (nodes s textNode)) newValue
                                   then upd_node textNode (\<lambda>d. d\<lparr>nodeValue := newValue\<rparr>) s
                                   else s)))
                   | Host t \<Rightarrow>
                       (case inst_dom i of
                          None \<Rightarrow> Some (Inl TypeError, s)
                        | Some domEl \<Rightarrow>
                            bind_f (lift_f (updateDomProps domEl (vprops (inst_node i)) (vprops n) s))
                              (\<lambda>u s1.
                                 bind_f (reconcileChildren rec env domEl i n path s1)
                                   (\<lambda>i' s2. Some (Inr (Some i'), s2))))
                   | Fragment \<Rightarrow>
                       bind_f (reconcileChildren rec env parentDom i n path s)
                         (\<lambda>i' s1. Some (Inr (Some i'), s1))
                   | Component c \<Rightarrow> updateComponent rec env parentDom i n path s
                   | OtherSymbol k \<Rightarrow> Some (Inr (Some i), s)))))"

fun reconcile :: "env \<Rightarrow> nat \<Rightarrow> reconciler" where
  "reconcile env 0 parentDom instance node path s = None"
| "reconcile env (Suc fuel) parentDom instance node path s =
     reconcile_body (reconcile env fuel) env parentDom instance node path s"

section \<open>render.ts, setup.ts\<close>

definition render :: "env \<Rightarrow> nat \<Rightarrow> state \<Rightarrow> unit fres" where
  "render env fuel s =
     (let s1 = s\<lparr>visited := {}, componentStack := []\<rparr> in
      bind_f (case root_container s1 of
                None \<Rightarrow> Some (Inr (), s1)
              | Some container \<Rightarrow>
                  (case root_node s1 of
                     None \<Rightarrow> Some (Inr (), s1)
                   | Some node \<Rightarrow>
                       bind_f (reconcile env fuel container (root_instance s1) (Some node) [] s1)
                         (\<lambda>instance s2. Some (Inr (), s2\<lparr>root_instance := instance\<rparr>))))
        (\<lambda>u s3. Some (Inr (), flushEffects (cleanupUnusedHooks s3))))"

text \<open>
  The loop that \<open>flushEffects\<close> schedules.  A cleanup is called when it is taken off the
  queue; an effect is handed to \<open>enqueue\<close>.  The loop ends when the queue is empty, so it
  too runs on a bound.
\<close>

fun flushEffects_loop :: "env \<Rightarrow> nat \<Rightarrow> state \<Rightarrow> unit fres" where
  "flushEffects_loop env 0 s = (if effects_queue s = [] then Some (Inr (), s) else None)"
| "flushEffects_loop env (Suc fuel) s =
     (case effects_queue s of
        [] \<Rightarrow> Some (Inr (), s)
      | item # rest \<Rightarrow>
          (case item of
             CleanupItem path cursor cleanup \<Rightarrow>
               (case call env cleanup [] (s\<lparr>effects_queue := rest\<rparr>) of
                  (Inl e, s1) \<Rightarrow> Some (Inl e, s1)
                | (Inr v, s1) \<Rightarrow> flushEffects_loop env fuel s1)
           | EffectItem path cursor effect \<Rightarrow>
               flushEffects_loop env fuel (enqueue (EffectTask effect) (s\<lparr>effects_queue := rest\<rparr>))))"

definition setup_root :: "env \<Rightarrow> nat \<Rightarrow> vnode option \<Rightarrow> nat option \<Rightarrow> state \<Rightarrow> unit fres" where
  "setup_root env fuel rootNode container s =
     (case container of
        None \<Rightarrow> Some (Inl NoContainer, s)
      | Some c \<Rightarrow>
          (case rootNode of
             None \<Rightarrow> Some (Inl NullRoot, s)
           | Some rn \<Rightarrow>
               (let s1 = (if root_instance s \<noteq> None then removeInstance c (root_instance s) s
                          else s);
                    s2 = clear_innerHTML c s1;
                    s3 = s2\<lparr>root_container := Some c, root_node := Some rn,
                            root_instance := None\<rparr>;
                    s4 = s3\<lparr>hooks_state := [], hooks_cursor := [], visited := {},
                            componentStack := []\<rparr>
                in render env fuel s4)))"

text \<open>
  Modelled from the spec: the microtask queue that \<open>enqueue\<close> feeds is drained one task
  at a time; \<open>withEnqueue\<close> clears its pending flag before it invokes the wrapped function.
\<close>

definition run_task :: "env \<Rightarrow> nat \<Rightarrow> task \<Rightarrow> state \<Rightarrow> unit fres" where
  "run_task env fuel t s =
     (case t of
        RenderTask \<Rightarrow> render env fuel (s\<lparr>render_scheduled := False\<rparr>)
      | FlushTask \<Rightarrow> flushEffects_loop env fuel (s\<lparr>flush_scheduled := False\<rparr>)
      | EffectTask c \<Rightarrow> Some (run_effect env c s))"

fun run_microtasks :: "env \<Rightarrow> nat \<Rightarrow> state \<Rightarrow> state option" where
  "run_microtasks env 0 s = (if microtasks s = [] then Some s else None)"
| "run_microtasks env (Suc fuel) s =
     (case microtasks s of
        [] \<Rightarrow> Some s
      | t # ts \<Rightarrow>
          (case run_task env fuel t (s\<lparr>microtasks := ts\<rparr>) of
             None \<Rightarrow> None
           | Some (r, s1) \<Rightarrow> run_microtasks env fuel s1))"

section \<open>Example programs\<close>

text \<open>A document with one element, number 0, to render into, and an untouched context.\<close>

definition initial_state :: state where
  "initial_state =
     \<lparr>nodes = (\<lambda>n. blank_node)(0 := blank_node\<lparr>tagName := Some ''div''\<rparr>),
      next_node = 1,
      root_container = None, root_node = None, root_instance = None,
      hooks_state = [], hooks_cursor = [], visited = {}, componentStack = [],
      heap = (\<lambda>r. []), next_ref = 0,
      effects_queue = [], microtasks = [],
      render_scheduled = False, flush_scheduled = False,
      console = []\<rparr>"

text \<open>User code that does nothing: every function returns \<open>undefined\<close>, every component \<open>null\<close>.\<close>

definition no_code :: env where
  "no_code =
     \<lparr>fns = (\<lambda>k args s. (Inr Undefined, s)),
      comps = (\<lambda>c props children s. (Inr None, s)),
      comp_name = (\<lambda>c. [])\<rparr>"



text \<open>
  Inside a component at path \<open>Counter\<close> on its first invocation: \<open>useState(0)\<close> is called,
  then the setter it returned is called with 1.
\<close>

definition counter_entered :: state where
  "counter_entered = mountComponent_enter ''Counter'' initial_state"

definition counter_setter :: setter where
  "counter_setter = \<lparr>s_hooks = 0, s_cursor = 0, s_state = Num 0\<rparr>"

definition counter_rendered :: state where
  "counter_rendered = snd (useState no_code (Num 0) counter_entered)"

definition counter_set_1 :: state where
  "counter_set_1 = snd (setState no_code counter_setter (Num 1) counter_rendered)"

text \<open>
  \<open><div>{sym}<span/></div>\<close>, where \<open>sym\<close> has a type that \<open>mount\<close> does not recognise and
  so leaves a null child at index 0, re-rendered as \<open><div><p/><span/></div>\<close>.
\<close>

definition gap_tree :: vnode where
  "gap_tree =
     VNode (Host ''div'') None []
       [VNode (OtherSymbol 9) None [] [], VNode (Host ''span'') None [] []]"

definition filled_tree :: vnode where
  "filled_tree =
     VNode (Host ''div'') None []
       [VNode (Host ''p'') None [] [], VNode (Host ''span'') None [] []]"

definition gap_mounted :: "(inst option) fres" where
  "gap_mounted = reconcile no_code 3 0 None (Some gap_tree) [] initial_state"

definition gap_filled :: "(inst option) fres" where
  "gap_filled =
     bind_f gap_mounted (\<lambda>instance s. reconcile no_code 3 0 instance (Some filled_tree) [] s)"

text \<open>An element with a class, and \<open><div data-x="1" onClick={f}/>\<close> re-rendered as \<open><div/>\<close>.\<close>

definition classy_props :: "(string \<times> jsval) list" where
  "classy_props = [(''className'', Str ''a'')]"

definition classy_element :: state where
  "classy_element = setDomProps 1 classy_props (snd (createElement ''div'' initial_state))"

definition decorated_tree :: vnode where
  "decorated_tree = VNode (Host ''div'') None [(''data-x'', Str ''1''), (''onClick'', Fn 5)] []"

definition plain_tree :: vnode where
  "plain_tree = VNode (Host ''div'') None [] []"

definition decorated_mounted :: "(inst option) fres" where
  "decorated_mounted = reconcile no_code 2 0 None (Some decorated_tree) [] initial_state"

definition decorated_updated :: "(inst option) fres" where
  "decorated_updated =
     bind_f decorated_mounted
       (\<lambda>instance s. reconcile no_code 2 0 instance (Some plain_tree) [] s)"

text \<open>What a test would look at: the state a run ended in, if it returned.\<close>

definition final_state :: "'a fres \<Rightarrow> state option" where
  "final_state r = (case r of Some (Inr x, s) \<Rightarrow> Some s | _ \<Rightarrow> None)"

section \<open>Properties of the recursive call and of user code\<close>

text \<open>\<open>rec\<close> leaves the component call stack as it found it, whether it returns or throws.\<close>

definition keeps_stack :: "reconciler \<Rightarrow> bool" where
  "keeps_stack rec =
     (\<forall>parentDom instance node path s r s'.
        rec parentDom instance node path s = Some (r, s') \<longrightarrow>
        componentStack s' = componentStack s)"

text \<open>Component functions leave the component call stack as they found it.\<close>

definition env_keeps_stack :: "env \<Rightarrow> bool" where
  "env_keeps_stack env =
     (\<forall>c props children t.
        componentStack (snd (comps env c props children t)) = componentStack t)"

text \<open>A component that calls \<open>useState\<close> and then throws.\<close>

definition failing_code :: env where
  "failing_code =
     \<lparr>fns = (\<lambda>k args s. (Inr Undefined, s)),
      comps = (\<lambda>c props children s.
                 case useState no_code (Num 0) s of
                   (Inl e, s1) \<Rightarrow> (Inl e, s1)
                 | (Inr x, s1) \<Rightarrow> (Inl (UserError ''boom''), s1)),
      comp_name = (\<lambda>c. ''Boom'')\<rparr>"

text \<open>
  A committed \<open><div/>\<close> (node 1) in the container (node 0), with a slot list, a cursor, a
  visited path and a stack entry left over.
\<close>

definition committed_example :: state where
  "committed_example =
     initial_state
       \<lparr>nodes := (\<lambda>n. blank_node)
                   (0 := blank_node\<lparr>tagName := Some ''div'', childNodes := [1]\<rparr>,
                    1 := blank_node\<lparr>tagName := Some ''div'', parentNode := Some 0\<rparr>),
        next_node := 2,
        root_container := Some 0, root_node := Some plain_tree,
        root_instance := Some (Instance HOST (Some 1) plain_tree [] None []),
        hooks_state := [(''x'', 0)], hooks_cursor := [(''x'', 1)], visited := {''x''},
        componentStack := [''x''], heap := (\<lambda>r. [])(0 := [Num 1]), next_ref := 1\<rparr>"

section \<open>The flush in the spec's words\<close>

text \<open>
  The entries that are in the queue when the flush starts, first to last: a cleanup is
  called when its turn comes, an effect is handed to \<open>enqueue\<close>.
\<close>

fun drain_in_order :: "env \<Rightarrow> effect_item list \<Rightarrow> state \<Rightarrow> (error + unit) \<times> state" where
  "drain_in_order env [] s = (Inr (), s)"
| "drain_in_order env (CleanupItem path cursor cleanup # rest) s =
     (case call env cleanup [] (s\<lparr>effects_queue := rest\<rparr>) of
        (Inl e, s1) \<Rightarrow> (Inl e, s1)
      | (Inr v, s1) \<Rightarrow> drain_in_order env rest s1)"
| "drain_in_order env (EffectItem path cursor effect # rest) s =
     drain_in_order env rest (enqueue (EffectTask effect) (s\<lparr>effects_queue := rest\<rparr>))"

text \<open>The effect entries of a queue, in queue order, as the tasks \<open>enqueue\<close> receives.\<close>

fun deferred_effects :: "effect_item list \<Rightarrow> task list" where
  "deferred_effects [] = []"
| "deferred_effects (CleanupItem path cursor cleanup # rest) = deferred_effects rest"
| "deferred_effects (EffectItem path cursor effect # rest) =
     EffectTask effect # deferred_effects rest"

text \<open>User functions that write their own number on the console and return \<open>undefined\<close>.\<close>

definition logging_code :: env where
  "logging_code =
     \<lparr>fns = (\<lambda>k args s. (Inr Undefined, s\<lparr>console := console s @ [string_of_nat k]\<rparr>)),
      comps = (\<lambda>c props children s. (Inr None, s)),
      comp_name = (\<lambda>c. [])\<rparr>"

text \<open>
  A queue as two components leave it: the effect of component \<open>A\<close> (function 1) in
  front of the cleanup of component \<open>B\<close> (function 2).
\<close>

definition effect_of_A :: effect_closure where
  "effect_of_A = \<lparr>e_effect = Fn 1, e_hooks = 0, e_cursor = 0\<rparr>"

definition flush_example :: state where
  "flush_example =
     initial_state\<lparr>effects_queue := [EffectItem ''A'' 0 effect_of_A, CleanupItem ''B'' 0 (Fn 2)]\<rparr>"

text \<open>
  As \<open>logging_code\<close>, except that function 2 also puts a cleanup entry for function 3 on
  the effect queue.
\<close>

definition requeueing_code :: env where
  "requeueing_code =
     \<lparr>fns = (\<lambda>k args s.
               (Inr Undefined,
                s\<lparr>console := console s @ [string_of_nat k],
                  effects_queue := (if k = 2 then effects_queue s @ [CleanupItem ''B'' 1 (Fn 3)]
                                    else effects_queue s)\<rparr>)),
      comps = (\<lambda>c props children s. (Inr None, s)),
      comp_name = (\<lambda>c. [])\<rparr>"

text \<open>\<open>createTextElement\<close> of elements.ts, for a string.\<close>

definition createTextElement :: "string \<Rightarrow> vnode" where
  "createTextElement v = VNode TEXT_ELEMENT None [(''nodeValue'', Str v)] []"

text \<open>The unkeyed list \<open>[A, B, C]\<close> under a \<open>ul\<close>, and the same list with \<open>X\<close> in front.\<close>

definition abc_tree :: vnode where
  "abc_tree = VNode (Host ''ul'') None [] (map createTextElement [''A'', ''B'', ''C''])"

definition xabc_tree :: vnode where
  "xabc_tree = VNode (Host ''ul'') None [] (map createTextElement [''X'', ''A'', ''B'', ''C''])"

text \<open>\<open>abc_tree\<close> as \<open>mount\<close> leaves it in the container: the \<open>ul\<close> is node 1, the texts 2 to 4.\<close>

definition abc_instance :: inst where
  "abc_instance =
     Instance HOST (Some 1) abc_tree
       [Some (Instance TEXT (Some 2) (createTextElement ''A'') [] None
                ''.i0.cSymbol(TEXT_ELEMENT)_0''),
        Some (Instance TEXT (Some 3) (createTextElement ''B'') [] None
                ''.i1.cSymbol(TEXT_ELEMENT)_1''),
        Some (Instance TEXT (Some 4) (createTextElement ''C'') [] None
                ''.i2.cSymbol(TEXT_ELEMENT)_2'')]
       None []"

definition abc_state :: state where
  "abc_state =
     initial_state
       \<lparr>nodes := (\<lambda>n. blank_node)
                   (0 := blank_node\<lparr>tagName := Some ''div'', childNodes := [1]\<rparr>,
                    1 := blank_node\<lparr>tagName := Some ''ul'', parentNode := Some 0,
                                     childNodes := [2, 3, 4]\<rparr>,
                    2 := blank_node\<lparr>nodeValue := Str ''A'', parentNode := Some 1\<rparr>,
                    3 := blank_node\<lparr>nodeValue := Str ''B'', parentNode := Some 1\<rparr>,
                    4 := blank_node\<lparr>nodeValue := Str ''C'', parentNode := Some 1\<rparr>),
        next_node := 5\<rparr>"

section \<open>An application that changes its child list\<close>

text \<open>
  \<open>App\<close> (component 0) holds a number and renders a \<open>div\<close> with the children \<open>[B, B]\<close> in
  state 0, \<open>[A]\<close> in state 3 and \<open>[A, B]\<close> otherwise.  \<open>A\<close> (component 1) renders nothing.
  \<open>B\<close> (component 2) calls \<open>useState(7)\<close>, writes the state it got on the console, calls
  \<open>useEffect(f, [1])\<close> and renders nothing.  The effect \<open>f\<close> writes \<open>effect\<close> on the console.
\<close>

definition app_view :: "jsval \<Rightarrow> vnode" where
  "app_view v =
     VNode (Host ''div'') None []
       (if v = Num 0 then [VNode (Component 2) None [] [], VNode (Component 2) None [] []]
        else if v = Num 3 then [VNode (Component 1) None [] []]
        else [VNode (Component 1) None [] [], VNode (Component 2) None [] []])"

definition shown :: "jsval \<Rightarrow> string" where
  "shown v = (if v = Num 7 then ''B sees 7'' else if v = Undefined then ''B sees undefined''
              else ''B sees something else'')"

definition swap_code :: env where
  "swap_code =
     \<lparr>fns = (\<lambda>k args s. (Inr Undefined, s\<lparr>console := console s @ [''effect'']\<rparr>)),
      comps = (\<lambda>c props children s.
                 if c = 0 then
                   (case useState no_code (Num 0) s of
                      (Inl e, s1) \<Rightarrow> (Inl e, s1)
                    | (Inr x, s1) \<Rightarrow> (Inr (Some (app_view (fst x))), s1))
                 else if c = 1 then (Inr None, s)
                 else
                   (case useState no_code (Num 7) s of
                      (Inl e, s1) \<Rightarrow> (Inl e, s1)
                    | (Inr x, s1) \<Rightarrow>
                        (case useEffect (Fn 9) (Arr 20 [Num 1])
                                (s1\<lparr>console := console s1 @ [shown (fst x)]\<rparr>) of
                           (Inl e, s2) \<Rightarrow> (Inl e, s2)
                         | (Inr u, s2) \<Rightarrow> (Inr None, s2)))),
      comp_name = (\<lambda>c. if c = 0 then ''App'' else if c = 1 then ''A'' else ''B'')\<rparr>"

text \<open>\<open>setup(<App/>, container)\<close>, then the microtasks are run.\<close>

definition app_started :: "state option" where
  "app_started =
     (case setup_root swap_code 10 (Some (VNode (Component 0) None [] [])) (Some 0)
             initial_state of
        Some (Inr u, s) \<Rightarrow> run_microtasks swap_code 10 s
      | _ \<Rightarrow> None)"

text \<open>
  The setter that \<open>App\<close> got from \<open>useState\<close> while its state was \<open>old\<close> is called with
  \<open>new\<close>, then the microtasks are run.
\<close>

definition app_set :: "int \<Rightarrow> int \<Rightarrow> state option \<Rightarrow> state option" where
  "app_set old new earlier =
     (case earlier of
        None \<Rightarrow> None
      | Some s \<Rightarrow>
          (case setState swap_code \<lparr>s_hooks = 0, s_cursor = 0, s_state = Num old\<rparr> (Num new) s of
             (Inl e, s1) \<Rightarrow> None
           | (Inr u, s1) \<Rightarrow> run_microtasks swap_code 10 s1))"

section \<open>Hook store\<close>

subsection \<open>Garbage collection of slot lists\<close>










subsection \<open>Hooks outside a component\<close>

text \<open>
  C8.  With an empty component call stack, \<open>useState\<close> and \<open>useEffect\<close> throw (the error of
  the \<open>currentPath\<close> getter), and the runtime is left exactly as it was: no slot, cursor
  or queue entry is created or changed.
\<close>

theorem hooks_outside_component_throw:
  assumes "componentStack s = []"
  shows "useState env initialValue s = (Inl HookOutsideComponent, s)
       \<and> useEffect effect deps s = (Inl HookOutsideComponent, s)"
  using assms by (simp add: useState_def useEffect_def currentPath_def)

theorem hooks_outside_component_throw_witness:
  "componentStack initial_state = []
   \<and> useState no_code (Num 0) initial_state = (Inl HookOutsideComponent, initial_state)
   \<and> useEffect (Fn 1) (Arr 1 []) initial_state = (Inl HookOutsideComponent, initial_state)"
proof -
  have h: "componentStack initial_state = []" by (simp add: initial_state_def)
  show ?thesis
    using h hooks_outside_component_throw [OF h, of no_code "Num 0" "Fn 1" "Arr 1 []"] by simp
qed

subsection \<open>The state setter\<close>

text \<open>
  C7, as the code has it.  The setter that \<open>useState\<close> returns compares the new value (or
  the updater's result) with the value \<open>v0\<close> that \<open>useState\<close> returned with it, which is
  the slot's value at that moment, not with the slot's value at the time of the call.
  If the two are identical under \<open>Object.is\<close> nothing is written and nothing is
  scheduled; otherwise the slot is written and \<open>enqueueRender\<close> is called once, which
  adds one render task unless one is pending.
\<close>

theorem setState_compares_with_captured_state:
  assumes "useState env init s0 = (Inr (v0, st), s1)"
      and "(if typeof nextValue = TFunction then call env nextValue [v0] s
            else (Inr nextValue, s)) = (Inr newValue, s2)"
  shows "s_state st = v0 \<and> js_get (heap s1 (s_hooks st)) (s_cursor st) = v0 \<and>
     setState env st nextValue s =
       (Inr (), if Object_is v0 newValue then s2
                else s2\<lparr>heap := (heap s2)(s_hooks st :=
                              js_set (heap s2 (s_hooks st)) (s_cursor st) newValue),
                        render_scheduled := True,
                        microtasks := (if render_scheduled s2 then microtasks s2
                                       else microtasks s2 @ [RenderTask])\<rparr>)"
proof -
  have a: "s_state st = v0 \<and> js_get (heap s1 (s_hooks st)) (s_cursor st) = v0"
    using assms(1)
    by (auto simp: useState_def Let_def split: sum.splits prod.splits if_splits)
  have b: "setState env st nextValue s =
       (Inr (), if Object_is v0 newValue then s2
                else s2\<lparr>heap := (heap s2)(s_hooks st :=
                              js_set (heap s2 (s_hooks st)) (s_cursor st) newValue),
                        render_scheduled := True,
                        microtasks := (if render_scheduled s2 then microtasks s2
                                       else microtasks s2 @ [RenderTask])\<rparr>)"
    using assms(2) a
    by (auto simp: setState_def enqueueRender_def enqueue_def)
  show ?thesis using a b by simp
qed

lemma counter_useState:
  "useState no_code (Num 0) counter_entered = (Inr (Num 0, counter_setter), counter_rendered)"
proof -
  have "fst (useState no_code (Num 0) counter_entered) = Inr (Num 0, counter_setter)"
    by (simp add: counter_entered_def counter_setter_def useState_def mountComponent_enter_def
          initial_state_def Let_def currentPath_def currentCursor_def currentHooks_def
          js_get_def)
  then show ?thesis
    by (simp add: counter_rendered_def prod_eq_iff)
qed

lemma counter_set_1_heap:
  "heap counter_set_1 0 = [Num 1] \<and> microtasks counter_set_1 = [RenderTask]"
  by (simp add: counter_set_1_def counter_rendered_def counter_entered_def counter_setter_def
        setState_def useState_def mountComponent_enter_def initial_state_def Let_def
        currentPath_def currentCursor_def currentHooks_def js_get_def js_set_def
        enqueueRender_def enqueue_def)

theorem setState_compares_with_captured_state_witness:
  "useState no_code (Num 0) counter_entered = (Inr (Num 0, counter_setter), counter_rendered)
   \<and> js_get (heap counter_rendered 0) 0 = Num 0
   \<and> setState no_code counter_setter (Num 0) counter_rendered = (Inr (), counter_rendered)
   \<and> heap (snd (setState no_code counter_setter (Num 1) counter_rendered)) 0 = [Num 1]
   \<and> microtasks (snd (setState no_code counter_setter (Num 1) counter_rendered)) = [RenderTask]"
proof -
  have h0: "(if typeof (Num 0) = TFunction then call no_code (Num 0) [Num 0] counter_rendered
            else (Inr (Num 0), counter_rendered)) = (Inr (Num 0), counter_rendered)"
    by simp
  have h1: "(if typeof (Num 1) = TFunction then call no_code (Num 1) [Num 0] counter_rendered
            else (Inr (Num 1), counter_rendered)) = (Inr (Num 1), counter_rendered)"
    by simp
  have r: "heap counter_rendered 0 = [Num 0]" "render_scheduled counter_rendered = False"
          "microtasks counter_rendered = []"
    by (simp_all add: counter_rendered_def counter_entered_def useState_def
          mountComponent_enter_def initial_state_def Let_def currentPath_def currentCursor_def
          currentHooks_def js_get_def)
  show ?thesis
    using setState_compares_with_captured_state [OF counter_useState h0]
          setState_compares_with_captured_state [OF counter_useState h1] counter_useState r
    by (simp add: counter_setter_def js_set_def)
qed

text \<open>
  The claim as stated compares with the current slot value.  After \<open>setCount(1)\<close> the slot
  holds 1; \<open>setCount(0)\<close> through the same setter passes a value that differs from the
  slot, yet nothing is written and nothing more is scheduled.
\<close>

theorem setState_current_slot_counterexample:
  "js_get (heap counter_set_1 (s_hooks counter_setter)) (s_cursor counter_setter) = Num 1
   \<and> \<not> Object_is (Num 1) (Num 0)
   \<and> setState no_code counter_setter (Num 0) counter_set_1 = (Inr (), counter_set_1)"
  using counter_set_1_heap
  by (simp add: counter_setter_def js_get_def setState_def)

subsection \<open>Effect dependency gating\<close>




section \<open>Reconciler\<close>

subsection \<open>The component call stack\<close>


lemma bind_f_Some:
  "bind_f m f = Some (r, s') \<longleftrightarrow>
     (\<exists>e. m = Some (Inl e, s') \<and> r = Inl e) \<or> (\<exists>x s1. m = Some (Inr x, s1) \<and> f x s1 = Some (r, s'))"
  by (auto simp: bind_f_def split: option.splits sum.splits prod.splits)

lemma finally_f_Some:
  "finally_f m fin = Some (r, s') \<longleftrightarrow> (\<exists>s1. m = Some (r, s1) \<and> s' = fin s1)"
  by (auto simp: finally_f_def split: option.splits prod.splits)

lemma stack_upd_node [simp]: "componentStack (upd_node n f s) = componentStack s"
  by (simp add: upd_node_def)

lemma stack_detach [simp]: "componentStack (detach n s) = componentStack s"
  by (simp add: detach_def split: option.splits)

lemma stack_appendChild [simp]: "componentStack (appendChild p n s) = componentStack s"
  by (simp add: appendChild_def)

lemma stack_insertBefore: "insertBefore p n r s = (x, s') \<Longrightarrow> componentStack s' = componentStack s"
  by (auto simp: insertBefore_def split: option.splits if_splits)

lemma stack_insertRest: "insertRest p prev ns s = (x, s') \<Longrightarrow> componentStack s' = componentStack s"
proof (induction ns arbitrary: prev s)
  case Nil then show ?case by simp
next
  case (Cons n ns)
  then show ?case
    by (auto split: prod.splits sum.splits dest: stack_insertBefore)
qed

lemma stack_fold_append [simp]:
  "componentStack (foldl (\<lambda>s n. appendChild p n s) s ns) = componentStack s"
  by (induction ns arbitrary: s) auto

lemma stack_insertInstance:
  "insertInstance p i a s = (x, s') \<Longrightarrow> componentStack s' = componentStack s"
  by (auto simp: insertInstance_def split: option.splits list.splits prod.splits sum.splits)
     (metis stack_insertBefore stack_insertRest)+

lemma stack_removeInstance [simp]: "componentStack (removeInstance p i s) = componentStack s"
proof -
  have "componentStack (foldl (\<lambda>s n. if parentNode (nodes s n) = Some p then removeChild p n s else s) s ns)
          = componentStack s" for ns
    by (induction ns arbitrary: s) (auto simp: removeChild_def)
  then show ?thesis by (simp add: removeInstance_def)
qed

lemma stack_setDomProp [simp]: "componentStack (setDomProp d props key s) = componentStack s"
proof -
  have "componentStack (foldl (\<lambda>s kv. set_style d (fst kv) (snd kv) s) s kvs) = componentStack s" for kvs
    by (induction kvs arbitrary: s) (auto simp: set_style_def)
  then show ?thesis
    by (simp add: setDomProp_def addEventListener_def setAttribute_def set_property_def)
qed

lemma stack_setDomProps [simp]: "componentStack (setDomProps d props s) = componentStack s"
proof -
  have "componentStack (foldl (\<lambda>s key. setDomProp d props key s) s ks) = componentStack s" for ks
    by (induction ks arbitrary: s) auto
  then show ?thesis by (simp add: setDomProps_def)
qed

lemma stack_clearStyles: "clearStyles d ks nx s = (x, s') \<Longrightarrow> componentStack s' = componentStack s"
  by (induction ks arbitrary: s) (auto simp: set_style_def split: if_splits sum.splits)

lemma stack_removeOldProp:
  "removeOldProp d pp np key s = (x, s') \<Longrightarrow> componentStack s' = componentStack s"
  by (auto simp: removeOldProp_def removeEventListener_def removeAttribute_def set_property_def
        split: if_splits dest: stack_clearStyles)

lemma stack_removeOldProps:
  "removeOldProps d pp np ks s = (x, s') \<Longrightarrow> componentStack s' = componentStack s"
proof (induction ks arbitrary: s)
  case Nil then show ?case by simp
next
  case (Cons k ks)
  then show ?case
    by (auto split: prod.splits sum.splits dest: stack_removeOldProp)
qed

lemma stack_updateDomProps:
  "updateDomProps d pp np s = (x, s') \<Longrightarrow> componentStack s' = componentStack s"
  by (auto simp: updateDomProps_def split: prod.splits sum.splits dest: stack_removeOldProps)

lemma stack_mountChildren:
  assumes "keeps_stack rec"
  shows "mountChildren rec env pd path cs i rest s = Some (r, s') \<Longrightarrow>
         componentStack s' = componentStack s"
proof (induction rest arbitrary: i s r s')
  case Nil then show ?case by simp
next
  case (Cons c rest)
  from Cons.prems show ?case
    using assms Cons.IH
    apply (simp add: bind_f_Some isEmptyValue_def keeps_stack_def)
    apply (elim disjE exE conjE)
      apply metis
     apply metis
    apply metis
    done
qed


lemma stack_call_component:
  assumes "env_keeps_stack env" and "call_component env node s = (x, s')"
  shows "componentStack s' = componentStack s"
  using assms
  by (auto simp: call_component_def env_keeps_stack_def split: vtype.splits) (metis snd_conv)

lemma stack_mountComponent_enter:
  "componentStack (mountComponent_enter path s) = componentStack s @ [path]"
  by (simp add: mountComponent_enter_def Let_def)

lemma stack_updateComponent_enter:
  "componentStack (updateComponent_enter path s) = componentStack s @ [path]"
  by (simp add: updateComponent_enter_def Let_def)

lemma keeps_stackD:
  "keeps_stack rec \<Longrightarrow> rec pd i n p s = Some (r, s') \<Longrightarrow> componentStack s' = componentStack s"
  unfolding keeps_stack_def by blast

lemma stack_mountComponent:
  assumes "keeps_stack rec" and "env_keeps_stack env"
      and "mountComponent rec env pd node path s = Some (r, s')"
  shows "componentStack s' = componentStack s"
proof -
  obtain x s4 where c: "call_component env node (mountComponent_enter path s) = (x, s4)"
    by (cases "call_component env node (mountComponent_enter path s)") auto
  have s4: "componentStack s4 = componentStack s @ [path]"
    using stack_call_component [OF assms(2) c] by (simp add: stack_mountComponent_enter)
  from assms(3) obtain s5 where
      inner: "(case call_component env node (mountComponent_enter path s) of
          (Inl e, s4) \<Rightarrow> Some (Inl e, s4)
        | (Inr childNode, s4) \<Rightarrow>
            (case childNode of
               None \<Rightarrow> Some (Inr (Some (Instance COMPONENT None node [] (vkey node) path)), s4)
             | Some cn \<Rightarrow>
                 if isEmptyValue cn
                 then Some (Inr (Some (Instance COMPONENT None node [] (vkey node) path)), s4)
                 else bind_f (rec pd None (Some cn) path s4)
                        (\<lambda>childInstance s5.
                           Some (Inr (Some (Instance COMPONENT None node [childInstance]
                                              (vkey node) path)), s5)))) = Some (r, s5)"
      and s': "s' = s5\<lparr>componentStack := butlast (componentStack s5)\<rparr>"
    unfolding mountComponent_def finally_f_Some by blast
  have "componentStack s5 = componentStack s4"
    using inner c keeps_stackD [OF assms(1)]
    by (auto simp: bind_f_Some isEmptyValue_def split: sum.splits option.splits)
  then show ?thesis using s4 s' by simp
qed

lemma stack_updateComponent:
  assumes "keeps_stack rec" and "env_keeps_stack env"
      and "updateComponent rec env pd i node path s = Some (r, s')"
  shows "componentStack s' = componentStack s"
proof -
  obtain x s3 where c: "call_component env node (updateComponent_enter path s) = (x, s3)"
    by (cases "call_component env node (updateComponent_enter path s)") auto
  have s3: "componentStack s3 = componentStack s @ [path]"
    using stack_call_component [OF assms(2) c] by (simp add: stack_updateComponent_enter)
  from assms(3) obtain s5 where
      inner: "(case call_component env node (updateComponent_enter path s) of
          (Inl e, s3) \<Rightarrow> Some (Inl e, s3)
        | (Inr childNode, s3) \<Rightarrow>
            (let prevChild = nth_or_null (inst_children i) 0 in
             bind_f (case childNode of
                       None \<Rightarrow> Some (Inr None, s3)
                     | Some cn \<Rightarrow> if isEmptyValue cn then Some (Inr None, s3)
                                  else rec pd prevChild (Some cn) path s3)
               (\<lambda>nextChild s4.
                  Some (Inr (Some (Instance (inst_kind i) (inst_dom i) node
                                     [nextChild] (inst_key i) path)),
                        if nextChild = None \<and> prevChild \<noteq> None
                        then removeInstance pd prevChild s4 else s4)))) = Some (r, s5)"
      and s': "s' = s5\<lparr>componentStack := butlast (componentStack s5)\<rparr>"
    unfolding updateComponent_def finally_f_Some by blast
  have "componentStack s5 = componentStack s3"
    using inner c keeps_stackD [OF assms(1)]
    by (auto simp: bind_f_Some isEmptyValue_def Let_def split: sum.splits option.splits if_splits)
  then show ?thesis using s3 s' by simp
qed

lemma stack_createElement: "componentStack (snd (createElement t s)) = componentStack s"
  by (simp add: createElement_def)

lemma stack_createTextNode: "componentStack (snd (createTextNode v s)) = componentStack s"
  by (simp add: createTextNode_def)

lemma lift_f_Some: "lift_f m = Some (r, s') \<longleftrightarrow> m = (r, s')"
  by (simp add: lift_f_def)

lemma stack_mount:
  assumes "keeps_stack rec" and "env_keeps_stack env"
      and "mount rec env pd node path s = Some (r, s')"
  shows "componentStack s' = componentStack s"
proof (cases "vtype node")
  case TEXT_ELEMENT
  with assms(3) show ?thesis
    by (auto simp: mount_def bind_f_Some lift_f_Some Let_def createTextNode_def
          split: prod.splits dest: stack_insertInstance)
next
  case (Host t)
  obtain d s1 where ce: "createElement t s = (d, s1)" by (cases "createElement t s") auto
  then have s1: "componentStack s1 = componentStack s"
    using stack_createElement [of t s] by simp
  from assms(3) Host ce show ?thesis
    using s1 stack_mountChildren [OF assms(1)]
    apply (simp add: mount_def bind_f_Some lift_f_Some Let_def)
    apply (elim disjE exE conjE)
      apply (metis stack_setDomProps)
     apply (metis stack_setDomProps stack_insertInstance)
    apply (metis stack_setDomProps stack_insertInstance)
    done
next
  case Fragment
  with assms(3) show ?thesis
    using stack_mountChildren [OF assms(1)]
    by (auto simp: mount_def bind_f_Some Let_def)
next
  case (Component c)
  with assms show ?thesis
    by (auto simp: mount_def dest: stack_mountComponent)
next
  case (OtherSymbol n)
  with assms(3) show ?thesis by (simp add: mount_def)
qed


lemma stack_insertMounted:
  "insertMounted pd ci pc ns s = (x, s') \<Longrightarrow> componentStack s' = componentStack s"
  by (auto simp: insertMounted_def split: if_splits option.splits dest: stack_insertInstance)

lemma stack_reconcileChildren_loop:
  assumes "keeps_stack rec"
  shows "reconcileChildren_loop rec env pd prev nxt path is acc s = Some (r, s') \<Longrightarrow>
         componentStack s' = componentStack s"
proof (induction "is" arbitrary: acc s)
  case Nil then show ?case by simp
next
  case (Cons i "is")
  show ?case
  proof (cases "nth_opt nxt i = None \<or> isEmptyValue (the (nth_opt nxt i))")
    case True
    with Cons.prems have
      "reconcileChildren_loop rec env pd prev nxt path is (acc @ [None])
         (if nth_or_null prev i \<noteq> None then removeInstance pd (nth_or_null prev i) s else s)
        = Some (r, s')"
      by (simp add: Let_def)
    from Cons.IH [OF this] show ?thesis by (simp split: if_splits)
  next
    case False
    let ?m = "rec pd (nth_or_null prev i) (nth_opt nxt i)
                (createChildPath env path (vkey (the (nth_opt nxt i))) i
                   (vtype (the (nth_opt nxt i))) nxt) s"
    let ?ns = "getFirstDomFromChildren (drop (i + 1) prev)"
    from Cons.prems False have b:
      "bind_f ?m (\<lambda>ci s1.
          bind_f (lift_f (insertMounted pd ci (nth_or_null prev i) ?ns s1))
            (\<lambda>u s2. reconcileChildren_loop rec env pd prev nxt path is (acc @ [ci]) s2))
        = Some (r, s')"
      by (simp add: Let_def)
    then consider (thrown) e where "?m = Some (Inl e, s')"
      | (ok) ci s1 where "?m = Some (Inr ci, s1)"
          "bind_f (lift_f (insertMounted pd ci (nth_or_null prev i) ?ns s1))
            (\<lambda>u s2. reconcileChildren_loop rec env pd prev nxt path is (acc @ [ci]) s2)
           = Some (r, s')"
      unfolding bind_f_Some by blast
    then show ?thesis
    proof cases
      case thrown
      then show ?thesis using keeps_stackD [OF assms] by blast
    next
      case ok
      have s1: "componentStack s1 = componentStack s"
        using keeps_stackD [OF assms ok(1)] .
      from ok(2) consider (thrown2) e where
          "insertMounted pd ci (nth_or_null prev i) ?ns s1 = (Inl e, s')"
        | (ok2) u s2 where "insertMounted pd ci (nth_or_null prev i) ?ns s1 = (Inr u, s2)"
          "reconcileChildren_loop rec env pd prev nxt path is (acc @ [ci]) s2 = Some (r, s')"
        unfolding bind_f_Some lift_f_Some by blast
      then show ?thesis
      proof cases
        case thrown2
        then show ?thesis using stack_insertMounted s1 by metis
      next
        case ok2
        have "componentStack s2 = componentStack s1" using stack_insertMounted [OF ok2(1)] .
        moreover have "componentStack s' = componentStack s2" using Cons.IH [OF ok2(2)] .
        ultimately show ?thesis using s1 by simp
      qed
    qed
  qed
qed

lemma stack_reconcileChildren:
  assumes "keeps_stack rec" and "reconcileChildren rec env pd i node path s = Some (r, s')"
  shows "componentStack s' = componentStack s"
  using assms(2) stack_reconcileChildren_loop [OF assms(1)]
  by (auto simp: reconcileChildren_def Let_def bind_f_Some)

lemma stack_reconcile_body:
  assumes "keeps_stack rec" and "env_keeps_stack env"
      and "reconcile_body rec env pd instance node path s = Some (r, s')"
  shows "componentStack s' = componentStack s"
proof (cases node)
  case None
  with assms(3) show ?thesis by (auto simp: reconcile_body_def split: if_splits)
next
  case (Some n)
  show ?thesis
  proof (cases "instance")
    case None
    with Some assms show ?thesis by (auto simp: reconcile_body_def dest: stack_mount)
  next
    case (Some i0)
    show ?thesis
    proof (cases "vtype (inst_node i0) \<noteq> vtype n \<or> inst_key i0 \<noteq> vkey n")
      case True
      with \<open>node = Some n\<close> Some assms(3) have
        "mount rec env pd n path (removeInstance pd instance s) = Some (r, s')"
        by (simp add: reconcile_body_def)
      from stack_mount [OF assms(1,2) this] show ?thesis by simp
    next
      case False
      let ?i = "Instance (inst_kind i0) (inst_dom i0) n (inst_children i0) (inst_key i0) path"
      show ?thesis
      proof (cases "vtype n")
        case TEXT_ELEMENT
        with False \<open>node = Some n\<close> Some assms(3) show ?thesis
          by (auto simp: reconcile_body_def Let_def split: option.splits if_splits)
      next
        case (Host t)
        with False \<open>node = Some n\<close> Some assms(3) show ?thesis
          using stack_reconcileChildren [OF assms(1)]
          apply (simp add: reconcile_body_def Let_def bind_f_Some lift_f_Some split: option.splits)
          apply (elim disjE exE conjE)
             apply (metis stack_updateDomProps)+
          done
      next
        case Fragment
        with False \<open>node = Some n\<close> Some assms(3) show ?thesis
          using stack_reconcileChildren [OF assms(1)]
          by (auto simp: reconcile_body_def Let_def bind_f_Some)
      next
        case (Component c)
        with False \<open>node = Some n\<close> Some assms show ?thesis
          by (auto simp: reconcile_body_def Let_def dest: stack_updateComponent)
      next
        case (OtherSymbol k)
        with False \<open>node = Some n\<close> Some assms(3) show ?thesis
          by (auto simp: reconcile_body_def Let_def)
      qed
    qed
  qed
qed

lemma keeps_stack_reconcile:
  assumes "env_keeps_stack env"
  shows "keeps_stack (reconcile env fuel)"
proof (induction fuel)
  case 0
  show ?case by (simp add: keeps_stack_def)
next
  case (Suc fuel)
  show ?case
    unfolding keeps_stack_def
    using stack_reconcile_body [OF Suc assms] by auto
qed


lemma stack_useState_value:
  "typeof init \<noteq> TFunction \<Longrightarrow> componentStack (snd (useState env init s)) = componentStack s"
  by (auto simp: useState_def currentHooks_def Let_def
        split: sum.splits prod.splits option.splits if_splits)

text \<open>
  C10.  When component functions themselves leave the call stack alone (the hooks do),
  every call of \<open>reconcile\<close> that comes back, with a result or with an exception, leaves
  the component call stack exactly as it was before the call: the path that
  \<open>mountComponent\<close> or \<open>updateComponent\<close> pushed has been popped by its \<open>finally\<close>.
\<close>

theorem reconcile_restores_componentStack:
  assumes "\<forall>c props children t.
             componentStack (snd (comps env c props children t)) = componentStack t"
      and "reconcile env fuel parentDom instance node path s = Some (r, s')"
  shows "componentStack s' = componentStack s"
proof -
  have "env_keeps_stack env" using assms(1) by (simp add: env_keeps_stack_def)
  from keeps_stackD [OF keeps_stack_reconcile [OF this] assms(2)] show ?thesis .
qed

lemma string_of_nat_small:
  "string_of_nat 0 = ''0''" "string_of_nat (Suc 0) = ''1''" "string_of_nat 1 = ''1''"
  "string_of_nat 2 = ''2''" "string_of_nat 3 = ''3''"
  "string_of_nat (Suc (Suc 0)) = ''2''" "string_of_nat (Suc (Suc (Suc 0))) = ''3''"
  by (simp_all add: string_of_nat.simps digit_char_def)

lemma reconcile_numeral:
  "reconcile env (numeral k) parentDom instance node path s =
     reconcile_body (reconcile env (pred_numeral k)) env parentDom instance node path s"
  by (simp add: numeral_eq_Suc)

lemmas run_defs =
  reconcile_body_def mount_def mountComponent_def updateComponent_def reconcileChildren_def
  mountComponent_enter_def updateComponent_enter_def call_component_def insertMounted_def
  bind_f_def lift_f_def finally_f_def nth_or_null_def nth_opt_def isEmptyValue_def
  createChildPath_def insertInstance_def removeInstance_def createElement_def
  createTextNode_def setDomProps_def updateDomProps_def appendChild_def detach_def
  upd_node_def insertBefore_def removeChild_def getFirstDomFromChildren_def Let_def
  nodeValue_of_def string_of_nat_small reconcile_numeral blank_node_def initial_state_def
  no_code_def setDomProp_def removeOldProp_def startsWith_def
  toLowerCase_def toLowerChar_def lookup_def has_key_def addEventListener_def
  removeEventListener_def setAttribute_def removeAttribute_def set_style_def
  set_property_def final_state_def isNullOrUndefined_def

theorem reconcile_restores_componentStack_witness:
  "(\<forall>c props children t.
      componentStack (snd (comps failing_code c props children t)) = componentStack t)
   \<and> (\<exists>s'. reconcile failing_code 2 0 None (Some (VNode (Component 0) None [] [])) ''r''
               (initial_state\<lparr>componentStack := [''outer'']\<rparr>)
             = Some (Inl (UserError ''boom''), s')
           \<and> componentStack s' = [''outer''])"
proof -
  have h: "\<forall>c props children t.
      componentStack (snd (comps failing_code c props children t)) = componentStack t"
  proof (intro allI)
    fix c props children t
    have "componentStack (snd (useState no_code (Num 0) t)) = componentStack t"
      by (rule stack_useState_value) simp
    then show "componentStack (snd (comps failing_code c props children t)) = componentStack t"
      by (auto simp: failing_code_def split: prod.splits sum.splits)
  qed
  have "\<exists>s'. reconcile failing_code 2 0 None (Some (VNode (Component 0) None [] [])) ''r''
               (initial_state\<lparr>componentStack := [''outer'']\<rparr>)
             = Some (Inl (UserError ''boom''), s')"
    by (simp add: run_defs failing_code_def useState_def currentPath_def currentCursor_def
          currentHooks_def js_get_def)
  then obtain s' where r:
     "reconcile failing_code 2 0 None (Some (VNode (Component 0) None [] [])) ''r''
               (initial_state\<lparr>componentStack := [''outer'']\<rparr>)
             = Some (Inl (UserError ''boom''), s')" ..
  have "componentStack s' = [''outer'']"
    using reconcile_restores_componentStack [OF h r] by simp
  with h r show ?thesis by blast
qed

subsection \<open>Placement of a child mounted in the middle of a list\<close>

text \<open>
  C2.  \<open><div>{sym}<span/></div>\<close> leaves a null child at index 0.  Re-rendered as
  \<open><div><p/><span/></div>\<close>, the \<open>p\<close> is mounted at index 0 while the old \<open>span\<close> at index 1
  still has its host node, so the \<open>p\<close> belongs before the \<open>span\<close>.  \<open>mount\<close> has already
  appended it to the parent by the time \<open>reconcileChildren\<close> looks at it, so the test
  \<open>firstDom.parentNode !== parentDom\<close> fails and nothing is inserted before the
  sibling: the host children end up as \<open>span, p\<close>.
\<close>

theorem mounted_mid_list_child_is_appended:
  "map_option (\<lambda>s. map (\<lambda>n. tagName (nodes s n)) (childNodes (nodes s 1)))
     (final_state gap_filled) = Some [Some ''span'', Some ''p'']
   \<and> map vtype (vchildren filled_tree) = [Host ''p'', Host ''span'']"
  by (simp add: gap_filled_def gap_mounted_def gap_tree_def filled_tree_def run_defs)

subsection \<open>Props of a host element on update\<close>

text \<open>
  C3.  Two ways in which a prop of the old props that is absent from the new props
  stays on the element.  \<open>updateDomProps\<close> itself never clears \<open>className\<close>: with old
  props \<open>{className: "a"}\<close> and new props \<open>{}\<close> the class is still \<open>a\<close>.  And \<open>reconcile\<close>
  overwrites \<open>instance.node\<close> before it reads \<open>instance.node.props\<close> as the old props, so
  \<open>updateDomProps\<close> is given the new props twice: \<open><div data-x="1" onClick={f}/>\<close>
  re-rendered as \<open><div/>\<close> keeps the attribute and the listener.
\<close>

theorem old_props_survive_update:
  "fst (updateDomProps 1 classy_props [] classy_element) = Inr ()
   \<and> className (nodes (snd (updateDomProps 1 classy_props [] classy_element)) 1) = Str ''a''
   \<and> map_option (\<lambda>s. (attributes (nodes s 1), listeners (nodes s 1)))
        (final_state decorated_updated)
       = Some ([(''data-x'', Str ''1'')], [(''click'', Fn 5)])"
  by (simp add: classy_props_def classy_element_def decorated_updated_def
        decorated_mounted_def decorated_tree_def plain_tree_def run_defs)

section \<open>Setup\<close>

lemma parentNode_detach:
  "parentNode (nodes (detach m s) n) = (if n = m then None else parentNode (nodes s n))"
  by (auto simp: detach_def upd_node_def split: option.splits)

lemma parentNode_removeInstance:
  "parentNode (nodes (removeInstance c inst s) n)
     = (if n \<in> set (getDomNodes inst) \<and> parentNode (nodes s n) = Some c then None
        else parentNode (nodes s n))"
proof -
  have "parentNode (nodes (foldl (\<lambda>s n. if parentNode (nodes s n) = Some c
                                         then removeChild c n s else s) s ns) n)
     = (if n \<in> set ns \<and> parentNode (nodes s n) = Some c then None
        else parentNode (nodes s n))" for ns
    by (induction ns arbitrary: s) (auto simp: removeChild_def parentNode_detach)
  then show ?thesis by (simp add: removeInstance_def)
qed

lemma parentNode_orphaned:
  "parentNode (nodes (foldl (\<lambda>s n. upd_node n (\<lambda>d. d\<lparr>parentNode := None\<rparr>) s) s ns) n)
     = (if n \<in> set ns then None else parentNode (nodes s n))"
  by (induction ns arbitrary: s) (auto simp: upd_node_def)

lemma parentNode_upd_childNodes:
  "parentNode (nodes (upd_node c (\<lambda>d. d\<lparr>childNodes := f d\<rparr>) s) n) = parentNode (nodes s n)"
  by (simp add: upd_node_def)

lemma parentNode_clear_innerHTML:
  "parentNode (nodes (clear_innerHTML c s) n)
     = (if n \<in> set (childNodes (nodes s c)) then None else parentNode (nodes s n))"
  by (simp add: clear_innerHTML_def parentNode_upd_childNodes parentNode_orphaned)

lemma childNodes_clear_innerHTML: "childNodes (nodes (clear_innerHTML c s) c) = []"
  by (simp add: clear_innerHTML_def upd_node_def)

lemma context_removeInstance:
  "effects_queue (removeInstance c inst s) = effects_queue s
   \<and> heap (removeInstance c inst s) = heap s
   \<and> microtasks (removeInstance c inst s) = microtasks s"
proof -
  have "effects_queue (foldl (\<lambda>s n. if parentNode (nodes s n) = Some c
                                      then removeChild c n s else s) s ns) = effects_queue s
      \<and> heap (foldl (\<lambda>s n. if parentNode (nodes s n) = Some c
                                      then removeChild c n s else s) s ns) = heap s
      \<and> microtasks (foldl (\<lambda>s n. if parentNode (nodes s n) = Some c
                                      then removeChild c n s else s) s ns) = microtasks s" for ns
    by (induction ns arbitrary: s)
       (auto simp: removeChild_def detach_def upd_node_def split: option.splits)
  then show ?thesis by (simp add: removeInstance_def)
qed

lemma context_clear_innerHTML:
  "effects_queue (clear_innerHTML c s) = effects_queue s
   \<and> heap (clear_innerHTML c s) = heap s
   \<and> microtasks (clear_innerHTML c s) = microtasks s"
proof -
  have "effects_queue (foldl (\<lambda>s n. upd_node n (\<lambda>d. d\<lparr>parentNode := None\<rparr>) s) s ns)
          = effects_queue s
      \<and> heap (foldl (\<lambda>s n. upd_node n (\<lambda>d. d\<lparr>parentNode := None\<rparr>) s) s ns) = heap s
      \<and> microtasks (foldl (\<lambda>s n. upd_node n (\<lambda>d. d\<lparr>parentNode := None\<rparr>) s) s ns)
          = microtasks s" for ns
    by (induction ns arbitrary: s) (auto simp: upd_node_def)
  then show ?thesis by (simp add: clear_innerHTML_def upd_node_def)
qed

text \<open>
  C9.  \<open>setup\<close> throws without touching anything when the container is absent, and when
  the root node is null.  With both present it is one call of \<open>render\<close>, on a runtime
  \<open>s4\<close> in which the container has no children, no host node of the previously committed
  instance tree is under the container, the root binding is the new one with no
  instance, and the hook store (slot lists, cursors, visited set, call stack) is empty.
  The effect queue, the slot arrays and the microtask queue are not reset.
\<close>

theorem setup_root_contract:
  "setup_root env fuel rootNode None s = Some (Inl NoContainer, s)
   \<and> setup_root env fuel None (Some c) s = Some (Inl NullRoot, s)
   \<and> (\<exists>s4. setup_root env fuel (Some rn) (Some c) s = render env fuel s4
          \<and> childNodes (nodes s4 c) = []
          \<and> (\<forall>n \<in> set (getDomNodes (root_instance s)). parentNode (nodes s4 n) \<noteq> Some c)
          \<and> root_container s4 = Some c \<and> root_node s4 = Some rn \<and> root_instance s4 = None
          \<and> hooks_state s4 = [] \<and> hooks_cursor s4 = [] \<and> visited s4 = {}
          \<and> componentStack s4 = []
          \<and> effects_queue s4 = effects_queue s \<and> heap s4 = heap s
          \<and> microtasks s4 = microtasks s)"
proof -
  let ?s1 = "if root_instance s \<noteq> None then removeInstance c (root_instance s) s else s"
  let ?s2 = "clear_innerHTML c ?s1"
  let ?s4 = "?s2\<lparr>root_container := Some c, root_node := Some rn, root_instance := None,
               hooks_state := [], hooks_cursor := [], visited := {}, componentStack := []\<rparr>"
  have run: "setup_root env fuel (Some rn) (Some c) s = render env fuel ?s4"
    by (simp add: setup_root_def Let_def)
  have gone: "\<forall>n \<in> set (getDomNodes (root_instance s)). parentNode (nodes ?s4 n) \<noteq> Some c"
    by (simp add: parentNode_clear_innerHTML parentNode_removeInstance)
  have rest: "effects_queue ?s4 = effects_queue s \<and> heap ?s4 = heap s
      \<and> microtasks ?s4 = microtasks s"
    by (simp add: context_clear_innerHTML context_removeInstance)
  have ex: "\<exists>s4. setup_root env fuel (Some rn) (Some c) s = render env fuel s4
          \<and> childNodes (nodes s4 c) = []
          \<and> (\<forall>n \<in> set (getDomNodes (root_instance s)). parentNode (nodes s4 n) \<noteq> Some c)
          \<and> root_container s4 = Some c \<and> root_node s4 = Some rn \<and> root_instance s4 = None
          \<and> hooks_state s4 = [] \<and> hooks_cursor s4 = [] \<and> visited s4 = {}
          \<and> componentStack s4 = []
          \<and> effects_queue s4 = effects_queue s \<and> heap s4 = heap s
          \<and> microtasks s4 = microtasks s"
  proof (rule exI [where x = "?s4"], intro conjI)
    show "setup_root env fuel (Some rn) (Some c) s = render env fuel ?s4" by (rule run)
    show "childNodes (nodes ?s4 c) = []" by (simp add: childNodes_clear_innerHTML)
    show "\<forall>n \<in> set (getDomNodes (root_instance s)). parentNode (nodes ?s4 n) \<noteq> Some c"
      by (rule gone)
    show "effects_queue ?s4 = effects_queue s" using rest by blast
    show "heap ?s4 = heap s" using rest by blast
    show "microtasks ?s4 = microtasks s" using rest by blast
  qed simp_all
  have none: "setup_root env fuel rootNode None s = Some (Inl NoContainer, s)"
    by (simp add: setup_root_def)
  have null: "setup_root env fuel None (Some c) s = Some (Inl NullRoot, s)"
    by (simp add: setup_root_def)
  from none null ex show ?thesis by blast
qed

theorem setup_root_contract_witness:
  "getDomNodes (root_instance committed_example) = [1]
   \<and> parentNode (nodes committed_example 1) = Some 0
   \<and> setup_root no_code 2 (Some filled_tree) None committed_example
       = Some (Inl NoContainer, committed_example)
   \<and> setup_root no_code 2 None (Some 0) committed_example
       = Some (Inl NullRoot, committed_example)
   \<and> (\<exists>s4. setup_root no_code 2 (Some filled_tree) (Some 0) committed_example
              = render no_code 2 s4
          \<and> childNodes (nodes s4 0) = [] \<and> parentNode (nodes s4 1) \<noteq> Some 0
          \<and> root_node s4 = Some filled_tree \<and> root_instance s4 = None
          \<and> hooks_state s4 = [] \<and> hooks_cursor s4 = [] \<and> visited s4 = {}
          \<and> componentStack s4 = [])"
proof -
  have g: "getDomNodes (root_instance committed_example) = [1]"
          "parentNode (nodes committed_example 1) = Some 0"
    by (simp_all add: committed_example_def initial_state_def blank_node_def)
  show ?thesis
    using g setup_root_contract [of no_code 2 "Some filled_tree" committed_example 0 filled_tree]
    apply simp
    apply (elim conjE exE)
    apply (rule exI)
    apply (intro conjI)
            apply assumption+
    done
qed

section \<open>Effect flush\<close>


lemma flush_returns_empty:
  "flushEffects_loop env fuel s = Some (Inr u, s') \<Longrightarrow> effects_queue s' = []"
proof (induction fuel arbitrary: s)
  case 0
  then show ?case by (simp split: if_splits)
next
  case (Suc fuel)
  show ?case
  proof (cases "effects_queue s")
    case Nil
    with Suc.prems show ?thesis by simp
  next
    case (Cons item rest)
    show ?thesis
    proof (cases item)
      case (CleanupItem p c f)
      with Cons Suc.prems Suc.IH show ?thesis
        by (auto split: prod.splits sum.splits)
    next
      case (EffectItem p c w)
      with Cons Suc.prems Suc.IH show ?thesis by auto
    qed
  qed
qed

lemma call_keeps_queue:
  assumes "\<forall>k args t. effects_queue (snd (fns env k args t)) = effects_queue t"
  shows "effects_queue (snd (call env f args s)) = effects_queue s"
  using assms by (cases f) (simp_all add: call_def)

lemma flush_is_drain:
  assumes "\<forall>k args t. effects_queue (snd (fns env k args t)) = effects_queue t"
  shows "length (effects_queue s) \<le> fuel \<Longrightarrow>
         flushEffects_loop env fuel s = Some (drain_in_order env (effects_queue s) s)"
proof (induction fuel arbitrary: s)
  case 0
  then show ?case by simp
next
  case (Suc fuel)
  show ?case
  proof (cases "effects_queue s")
    case Nil
    then show ?thesis by simp
  next
    case (Cons item rest)
    with Suc.prems have len: "length rest \<le> fuel" by simp
    show ?thesis
    proof (cases item)
      case (CleanupItem p c f)
      obtain x s1 where c: "call env f [] (s\<lparr>effects_queue := rest\<rparr>) = (x, s1)"
        by (cases "call env f [] (s\<lparr>effects_queue := rest\<rparr>)") auto
      have q: "effects_queue s1 = rest"
        using call_keeps_queue [OF assms, of f "[]" "s\<lparr>effects_queue := rest\<rparr>"] c by simp
      show ?thesis
      proof (cases x)
        case (Inl e)
        with Cons CleanupItem c show ?thesis by simp
      next
        case (Inr v)
        have "flushEffects_loop env fuel s1 = Some (drain_in_order env (effects_queue s1) s1)"
          using Suc.IH [of s1] len q by simp
        with Cons CleanupItem c Inr q show ?thesis by simp
      qed
    next
      case (EffectItem p c w)
      let ?s1 = "enqueue (EffectTask w) (s\<lparr>effects_queue := rest\<rparr>)"
      have q: "effects_queue ?s1 = rest" by (simp add: enqueue_def)
      have "flushEffects_loop env fuel ?s1 = Some (drain_in_order env (effects_queue ?s1) ?s1)"
        using Suc.IH [of ?s1] len q by simp
      with Cons EffectItem q show ?thesis by simp
    qed
  qed
qed

lemma call_keeps_microtasks:
  assumes "\<forall>k args t. microtasks (snd (fns env k args t)) = microtasks t"
  shows "microtasks (snd (call env f args s)) = microtasks s"
  using assms by (cases f) (simp_all add: call_def)

lemma drain_defers_effects:
  assumes "\<forall>k args t. microtasks (snd (fns env k args t)) = microtasks t"
  shows "drain_in_order env q s = (Inr u, s') \<Longrightarrow>
         microtasks s' = microtasks s @ deferred_effects q"
proof (induction q arbitrary: s)
  case Nil
  then show ?case by simp
next
  case (Cons item rest)
  show ?case
  proof (cases item)
    case (CleanupItem p c f)
    obtain x s1 where c: "call env f [] (s\<lparr>effects_queue := rest\<rparr>) = (x, s1)"
      by (cases "call env f [] (s\<lparr>effects_queue := rest\<rparr>)") auto
    have m: "microtasks s1 = microtasks s"
      using call_keeps_microtasks [OF assms, of f "[]" "s\<lparr>effects_queue := rest\<rparr>"] c
      by simp
    from Cons.prems CleanupItem c obtain v where x: "x = Inr v" by (cases x) auto
    with Cons.prems CleanupItem c have "drain_in_order env rest s1 = (Inr u, s')" by simp
    from Cons.IH [OF this] m CleanupItem show ?thesis by simp
  next
    case (EffectItem p c w)
    with Cons.prems have
      "drain_in_order env rest (enqueue (EffectTask w) (s\<lparr>effects_queue := rest\<rparr>)) = (Inr u, s')"
      by simp
    from Cons.IH [OF this] EffectItem show ?thesis by (simp add: enqueue_def)
  qed
qed


text \<open>
  C5, as the code has it.  The loop takes entries off the front of the queue until the
  queue is empty, so it returns only with an empty queue, whatever a cleanup added
  meanwhile.  A cleanup entry is called the moment it is taken off.  An effect entry is
  not: it is handed to \<open>enqueue\<close>.  When no callback touches the two queues and the bound
  covers the queue, the loop is the in-order pass over the entries it started with, and
  when that pass is through every effect entry is still pending as a microtask, in queue
  order, behind all the cleanups that were called.
\<close>

theorem flushEffects_loop_order:
  "(flushEffects_loop env fuel s = Some (Inr u, s') \<longrightarrow> effects_queue s' = [])
   \<and> (effects_queue s = CleanupItem path cursor cleanup # rest \<longrightarrow>
        flushEffects_loop env (Suc fuel) s =
          (case call env cleanup [] (s\<lparr>effects_queue := rest\<rparr>) of
             (Inl e, s1) \<Rightarrow> Some (Inl e, s1)
           | (Inr v, s1) \<Rightarrow> flushEffects_loop env fuel s1))
   \<and> ((\<forall>k args t. effects_queue (snd (fns env k args t)) = effects_queue t
                  \<and> microtasks (snd (fns env k args t)) = microtasks t)
        \<and> length (effects_queue s) \<le> fuel \<longrightarrow>
        flushEffects_loop env fuel s = Some (drain_in_order env (effects_queue s) s)
        \<and> (\<forall>u' s''. drain_in_order env (effects_queue s) s = (Inr u', s'') \<longrightarrow>
               microtasks s'' = microtasks s @ deferred_effects (effects_queue s)))"
proof (intro conjI impI)
  assume "flushEffects_loop env fuel s = Some (Inr u, s')"
  then show "effects_queue s' = []" by (rule flush_returns_empty)
next
  assume "effects_queue s = CleanupItem path cursor cleanup # rest"
  then show "flushEffects_loop env (Suc fuel) s =
          (case call env cleanup [] (s\<lparr>effects_queue := rest\<rparr>) of
             (Inl e, s1) \<Rightarrow> Some (Inl e, s1)
           | (Inr v, s1) \<Rightarrow> flushEffects_loop env fuel s1)"
    by simp
next
  assume h: "(\<forall>k args t. effects_queue (snd (fns env k args t)) = effects_queue t
                  \<and> microtasks (snd (fns env k args t)) = microtasks t)
        \<and> length (effects_queue s) \<le> fuel"
  then show "flushEffects_loop env fuel s = Some (drain_in_order env (effects_queue s) s)"
    using flush_is_drain [of env s fuel] by blast
next
  assume h: "(\<forall>k args t. effects_queue (snd (fns env k args t)) = effects_queue t
                  \<and> microtasks (snd (fns env k args t)) = microtasks t)
        \<and> length (effects_queue s) \<le> fuel"
  then have m: "\<forall>k args t. microtasks (snd (fns env k args t)) = microtasks t" by blast
  show "\<forall>u' s''. drain_in_order env (effects_queue s) s = (Inr u', s'') \<longrightarrow>
               microtasks s'' = microtasks s @ deferred_effects (effects_queue s)"
    using drain_defers_effects [OF m] by blast
qed

lemma flush_example_drained:
  "drain_in_order logging_code (effects_queue flush_example) flush_example =
     (Inr (), flush_example\<lparr>effects_queue := [], microtasks := [EffectTask effect_of_A],
                            console := [''2'']\<rparr>)"
  by (simp add: flush_example_def initial_state_def logging_code_def call_def enqueue_def
        string_of_nat_small)

theorem flushEffects_loop_order_witness:
  "(\<forall>k args t. effects_queue (snd (fns logging_code k args t)) = effects_queue t
                \<and> microtasks (snd (fns logging_code k args t)) = microtasks t)
   \<and> length (effects_queue flush_example) \<le> 2
   \<and> flushEffects_loop logging_code 2 flush_example =
       Some (Inr (), flush_example\<lparr>effects_queue := [],
                                    microtasks := [EffectTask effect_of_A],
                                    console := [''2'']\<rparr>)
   \<and> deferred_effects (effects_queue flush_example) = [EffectTask effect_of_A]
   \<and> (\<exists>s'. flushEffects_loop requeueing_code 3
               (initial_state\<lparr>effects_queue := [CleanupItem ''B'' 0 (Fn 2)]\<rparr>)
             = Some (Inr (), s')
           \<and> console s' = [''2'', ''3''] \<and> effects_queue s' = [])"
proof -
  have h: "\<forall>k args t. effects_queue (snd (fns logging_code k args t)) = effects_queue t
                \<and> microtasks (snd (fns logging_code k args t)) = microtasks t"
    by (simp add: logging_code_def)
  have l: "length (effects_queue flush_example) \<le> 2"
    by (simp add: flush_example_def initial_state_def)
  have d: "deferred_effects (effects_queue flush_example) = [EffectTask effect_of_A]"
    by (simp add: flush_example_def initial_state_def)
  have "flushEffects_loop logging_code 2 flush_example =
          Some (drain_in_order logging_code (effects_queue flush_example) flush_example)"
    using flushEffects_loop_order
            [of logging_code 2 flush_example "()" flush_example "[]" 0 Null "[]"] h l
    by blast
  then have a: "flushEffects_loop logging_code 2 flush_example =
       Some (Inr (), flush_example\<lparr>effects_queue := [],
                                    microtasks := [EffectTask effect_of_A],
                                    console := [''2'']\<rparr>)"
    by (simp only: flush_example_drained)
  have "\<exists>s'. flushEffects_loop requeueing_code 3
               (initial_state\<lparr>effects_queue := [CleanupItem ''B'' 0 (Fn 2)]\<rparr>)
             = Some (Inr (), s') \<and> console s' = [''2'', ''3'']"
    by (simp add: numeral_3_eq_3 requeueing_code_def initial_state_def call_def
          string_of_nat_small)
  then obtain s' where r: "flushEffects_loop requeueing_code 3
               (initial_state\<lparr>effects_queue := [CleanupItem ''B'' 0 (Fn 2)]\<rparr>)
             = Some (Inr (), s')" and c: "console s' = [''2'', ''3'']"
    by blast
  have e: "effects_queue s' = []"
    using flushEffects_loop_order
            [of requeueing_code 3 "initial_state\<lparr>effects_queue := [CleanupItem ''B'' 0 (Fn 2)]\<rparr>"
                "()" s' "[]" 0 Null "[]"] r
    by blast
  have x: "\<exists>s'. flushEffects_loop requeueing_code 3
               (initial_state\<lparr>effects_queue := [CleanupItem ''B'' 0 (Fn 2)]\<rparr>)
             = Some (Inr (), s')
           \<and> console s' = [''2'', ''3''] \<and> effects_queue s' = []"
    by (rule exI [where x = s']) (intro conjI r c e)
  show ?thesis by (intro conjI h l a d x)
qed

text \<open>
  The claim as stated has every entry run when it is dequeued.  With the effect of \<open>A\<close>
  queued in front of the cleanup of \<open>B\<close>, the loop ends with the cleanup called (the
  console shows 2) and the effect not yet run: it is a pending microtask, and writes its
  1 only when the microtasks are run.
\<close>

theorem effect_not_run_when_dequeued_counterexample:
  "flushEffects_loop logging_code 2 flush_example =
     Some (Inr (), flush_example\<lparr>effects_queue := [],
                                  microtasks := [EffectTask effect_of_A],
                                  console := [''2'']\<rparr>)
   \<and> map_option console
        (run_microtasks logging_code 2
           (flush_example\<lparr>effects_queue := [], microtasks := [EffectTask effect_of_A],
                           console := [''2'']\<rparr>)) = Some [''2'', ''1'']"
  by (simp add: numeral_2_eq_2 flush_example_def initial_state_def logging_code_def call_def
        enqueue_def string_of_nat_small run_task_def run_effect_def effect_of_A_def)

subsection \<open>Child lists are matched by index\<close>


lemma loop_step_absent:
  assumes "length nxt \<le> i"
  shows "reconcileChildren_loop rec env pd prev nxt path (i # is) acc s =
           reconcileChildren_loop rec env pd prev nxt path is (acc @ [None])
             (removeInstance pd (nth_or_null prev i) s)"
  using assms by (simp add: nth_opt_def Let_def removeInstance_def)

lemma loop_step_present:
  assumes "i < length nxt"
  shows "reconcileChildren_loop rec env pd prev nxt path (i # is) acc s =
           bind_f (rec pd (nth_or_null prev i) (Some (nxt ! i))
                     (createChildPath env path (vkey (nxt ! i)) i (vtype (nxt ! i)) nxt) s)
             (\<lambda>childInstance s1.
                bind_f (lift_f (insertMounted pd childInstance (nth_or_null prev i)
                                  (getFirstDomFromChildren (drop (i + 1) prev)) s1))
                  (\<lambda>u s2. reconcileChildren_loop rec env pd prev nxt path is
                              (acc @ [childInstance]) s2))"
  using assms by (simp add: nth_opt_def Let_def isEmptyValue_def)

lemma loop_step_cases:
  assumes "reconcileChildren_loop rec env pd prev nxt path (i # is) acc s = Some (Inr out, s')"
  obtains (absent) "length nxt \<le> i"
      "reconcileChildren_loop rec env pd prev nxt path is (acc @ [None])
         (removeInstance pd (nth_or_null prev i) s) = Some (Inr out, s')"
  | (present) ci s1 s2 where "i < length nxt"
      "rec pd (nth_or_null prev i) (Some (nxt ! i))
         (createChildPath env path (vkey (nxt ! i)) i (vtype (nxt ! i)) nxt) s = Some (Inr ci, s1)"
      "reconcileChildren_loop rec env pd prev nxt path is (acc @ [ci]) s2 = Some (Inr out, s')"
proof (cases "i < length nxt")
  case False
  then have "length nxt \<le> i" by simp
  with assms loop_step_absent [OF this] absent show ?thesis by metis
next
  case True
  from assms obtain ci s1 s2 where
      "rec pd (nth_or_null prev i) (Some (nxt ! i))
         (createChildPath env path (vkey (nxt ! i)) i (vtype (nxt ! i)) nxt) s = Some (Inr ci, s1)"
      "reconcileChildren_loop rec env pd prev nxt path is (acc @ [ci]) s2 = Some (Inr out, s')"
    unfolding loop_step_present [OF True] bind_f_Some lift_f_Some by blast
  with True present show ?thesis by blast
qed

lemma loop_shape:
  "reconcileChildren_loop rec env pd prev nxt path is acc s = Some (Inr out, s') \<Longrightarrow>
     length out = length acc + length is \<and> take (length acc) out = acc"
proof (induction "is" arbitrary: acc s)
  case Nil
  then show ?case by simp
next
  case (Cons i "is")
  from Cons.prems show ?case
  proof (cases rule: loop_step_cases)
    case absent
    from Cons.IH [OF absent(2)]
    have l: "length out = length (acc @ [None]) + length is"
      and t: "take (length (acc @ [None])) out = acc @ [None]" by blast+
    have "take (length acc) (take (length (acc @ [None])) out) = take (length acc) out"
      by (simp add: min_def)
    with t l show ?thesis by simp
  next
    case (present ci s1 s2)
    from Cons.IH [OF present(3)]
    have l: "length out = length (acc @ [ci]) + length is"
      and t: "take (length (acc @ [ci])) out = acc @ [ci]" by blast+
    have "take (length acc) (take (length (acc @ [ci])) out) = take (length acc) out"
      by (simp add: min_def)
    with t l show ?thesis by simp
  qed
qed

lemma nth_of_take_snoc:
  assumes "take (Suc n) out = acc @ [x]" and "length acc = n"
  shows "out ! n = x"
proof -
  have "n < length out"
  proof (rule ccontr)
    assume "\<not> n < length out"
    then have "length (take (Suc n) out) \<le> n" by simp
    with assms show False by simp
  qed
  then have "out ! n = take (Suc n) out ! n" by simp
  also have "\<dots> = (acc @ [x]) ! length acc" using assms by simp
  also have "\<dots> = x" by (rule nth_append_length)
  finally show ?thesis .
qed

lemma loop_provenance:
  "reconcileChildren_loop rec env pd prev nxt path is acc s = Some (Inr out, s') \<Longrightarrow>
   k < length is \<Longrightarrow> is ! k < length nxt \<Longrightarrow>
   \<exists>si si'. rec pd (nth_or_null prev (is ! k)) (Some (nxt ! (is ! k)))
               (createChildPath env path (vkey (nxt ! (is ! k))) (is ! k)
                  (vtype (nxt ! (is ! k))) nxt) si
             = Some (Inr (out ! (length acc + k)), si')"
proof (induction "is" arbitrary: acc s k)
  case Nil
  then show ?case by simp
next
  case (Cons i "is")
  from Cons.prems(1) show ?case
  proof (cases rule: loop_step_cases)
    case absent
    show ?thesis
    proof (cases k)
      case 0
      with Cons.prems absent show ?thesis by simp
    next
      case (Suc k')
      with Cons.prems have "k' < length is" "is ! k' < length nxt" by simp_all
      from Cons.IH [OF absent(2) this] Suc show ?thesis by simp
    qed
  next
    case (present ci s1 s2)
    show ?thesis
    proof (cases k)
      case 0
      from loop_shape [OF present(3)] have "take (Suc (length acc)) out = acc @ [ci]" by simp
      then have "out ! length acc = ci" by (rule nth_of_take_snoc) simp
      with present(2) 0 show ?thesis by auto
    next
      case (Suc k')
      with Cons.prems have "k' < length is" "is ! k' < length nxt" by simp_all
      from Cons.IH [OF present(3) this] Suc show ?thesis by simp
    qed
  qed
qed

lemma loop_absent:
  "reconcileChildren_loop rec env pd prev nxt path is acc s = Some (Inr out, s') \<Longrightarrow>
   k < length is \<Longrightarrow> length nxt \<le> is ! k \<Longrightarrow> out ! (length acc + k) = None"
proof (induction "is" arbitrary: acc s k)
  case Nil
  then show ?case by simp
next
  case (Cons i "is")
  from Cons.prems(1) show ?case
  proof (cases rule: loop_step_cases)
    case absent
    show ?thesis
    proof (cases k)
      case 0
      from loop_shape [OF absent(2)] have "take (Suc (length acc)) out = acc @ [None]" by simp
      then have "out ! length acc = None" by (rule nth_of_take_snoc) simp
      with 0 show ?thesis by simp
    next
      case (Suc k')
      with Cons.prems have "k' < length is" "length nxt \<le> is ! k'" by simp_all
      from Cons.IH [OF absent(2) this] Suc show ?thesis by simp
    qed
  next
    case (present ci s1 s2)
    show ?thesis
    proof (cases k)
      case 0
      with Cons.prems present show ?thesis by simp
    next
      case (Suc k')
      with Cons.prems have "k' < length is" "length nxt \<le> is ! k'" by simp_all
      from Cons.IH [OF present(3) this] Suc show ?thesis by simp
    qed
  qed
qed

lemma loop_removal_only:
  "\<forall>i \<in> set is. length nxt \<le> i \<Longrightarrow>
   reconcileChildren_loop rec env pd prev nxt path is acc s =
     Some (Inr (acc @ replicate (length is) None),
           foldl (\<lambda>s i. removeInstance pd (nth_or_null prev i) s) s is)"
proof (induction "is" arbitrary: acc s)
  case Nil
  then show ?case by simp
next
  case (Cons i "is")
  then have "length nxt \<le> i" and r: "\<forall>i \<in> set is. length nxt \<le> i" by simp_all
  from loop_step_absent [OF this(1)] Cons.IH [OF r] show ?case
    by (simp add: replicate_app_Cons_same)
qed

lemma removed_stay_removed:
  "parentNode (nodes s n) \<noteq> Some pd \<Longrightarrow>
   parentNode (nodes (foldl (\<lambda>s i. removeInstance pd (nth_or_null prev i) s) s is) n) \<noteq> Some pd"
  by (induction "is" arbitrary: s) (simp_all add: parentNode_removeInstance)

lemma removal_detaches:
  "i \<in> set is \<Longrightarrow> n \<in> set (getDomNodes (nth_or_null prev i)) \<Longrightarrow>
   parentNode (nodes (foldl (\<lambda>s i. removeInstance pd (nth_or_null prev i) s) s is) n) \<noteq> Some pd"
proof (induction "is" arbitrary: s)
  case Nil
  then show ?case by simp
next
  case (Cons j "is")
  show ?case
  proof (cases "i = j")
    case True
    with Cons.prems have
      "parentNode (nodes (removeInstance pd (nth_or_null prev j) s) n) \<noteq> Some pd"
      by (simp add: parentNode_removeInstance)
    from removed_stay_removed [OF this] show ?thesis by simp
  next
    case False
    with Cons.prems have "i \<in> set is" by simp
    from Cons.IH [OF this Cons.prems(2)] show ?thesis by simp
  qed
qed

lemma loop_removes_absent:
  "sorted is \<Longrightarrow>
   reconcileChildren_loop rec env pd prev nxt path is acc s = Some (Inr out, s') \<Longrightarrow>
   i \<in> set is \<Longrightarrow> length nxt \<le> i \<Longrightarrow> n \<in> set (getDomNodes (nth_or_null prev i)) \<Longrightarrow>
   parentNode (nodes s' n) \<noteq> Some pd"
proof (induction "is" arbitrary: acc s)
  case Nil
  then show ?case by simp
next
  case (Cons j "is")
  show ?case
  proof (cases "length nxt \<le> j")
    case True
    with Cons.prems(1) have "\<forall>i \<in> set (j # is). length nxt \<le> i" by auto
    from loop_removal_only [OF this, of rec env pd prev path acc s] Cons.prems(2)
    have "s' = foldl (\<lambda>s i. removeInstance pd (nth_or_null prev i) s) s (j # is)" by simp
    with removal_detaches [OF Cons.prems(3) Cons.prems(5)] show ?thesis by simp
  next
    case False
    with Cons.prems(3,4) have mem: "i \<in> set is" by auto
    from Cons.prems(1) have srt: "sorted is" by simp
    from Cons.prems(2) show ?thesis
    proof (cases rule: loop_step_cases)
      case absent
      with False show ?thesis by simp
    next
      case (present ci s1 s2)
      from Cons.IH [OF srt present(3) mem Cons.prems(4) Cons.prems(5)] show ?thesis .
    qed
  qed
qed

lemma reconcileChildren_by_index:
  assumes "reconcileChildren rec env parentDom instance node path s = Some (Inr instance', s')"
  shows "length (inst_children instance')
           = max (length (inst_children instance)) (length (vchildren node))
       \<and> (\<forall>i. i < length (vchildren node) \<longrightarrow>
            (\<exists>si si'. rec parentDom (nth_or_null (inst_children instance) i)
                         (Some (vchildren node ! i))
                         (createChildPath env path (vkey (vchildren node ! i)) i
                            (vtype (vchildren node ! i)) (vchildren node)) si
                       = Some (Inr (inst_children instance' ! i), si')))
       \<and> (\<forall>i. length (vchildren node) \<le> i \<and> i < length (inst_children instance) \<longrightarrow>
            inst_children instance' ! i = None
          \<and> (\<forall>n \<in> set (getDomNodes (inst_children instance ! i)).
                parentNode (nodes s' n) \<noteq> Some parentDom))"
proof -
  let ?prev = "inst_children instance"
  let ?nxt = "vchildren node"
  let ?m = "max (length ?prev) (length ?nxt)"
  from assms obtain out where
      loop: "reconcileChildren_loop rec env parentDom ?prev ?nxt path [0..<?m] [] s
               = Some (Inr out, s')"
    and out: "inst_children instance' = out"
    by (auto simp: reconcileChildren_def Let_def isEmptyValue_def bind_f_Some)
  have len: "length out = ?m" using loop_shape [OF loop] by simp
  have pres: "\<exists>si si'. rec parentDom (nth_or_null ?prev i) (Some (?nxt ! i))
                         (createChildPath env path (vkey (?nxt ! i)) i (vtype (?nxt ! i)) ?nxt) si
                       = Some (Inr (out ! i), si')" if "i < length ?nxt" for i
  proof -
    from that have k: "i < length [0..<?m]" by simp
    then have "[0..<?m] ! i = i" by simp
    with loop_provenance [OF loop k] that show ?thesis by simp
  qed
  have abs: "out ! i = None \<and> (\<forall>n \<in> set (getDomNodes (?prev ! i)).
                parentNode (nodes s' n) \<noteq> Some parentDom)"
    if "length ?nxt \<le> i \<and> i < length ?prev" for i
  proof -
    from that have k: "i < length [0..<?m]" by simp
    then have e: "[0..<?m] ! i = i" by simp
    from that have mem: "i \<in> set [0..<?m]" by simp
    have "out ! i = None" using loop_absent [OF loop k] that e by simp
    moreover have "parentNode (nodes s' n) \<noteq> Some parentDom"
      if "n \<in> set (getDomNodes (?prev ! i))" for n
    proof -
      from \<open>length ?nxt \<le> i \<and> i < length ?prev\<close> that
      have "n \<in> set (getDomNodes (nth_or_null ?prev i))" by (simp add: nth_or_null_def)
      from loop_removes_absent [OF _ loop mem _ this] \<open>length ?nxt \<le> i \<and> i < length ?prev\<close>
      show ?thesis by simp
    qed
    ultimately show ?thesis by blast
  qed
  from len pres abs out show ?thesis by blast
qed


text \<open>
  C1.  An update of a HOST element or a fragment (same type and key as the instance
  \<open>i0\<close>) that returns has matched the children by index.  The new child list has
  \<open>max(prevLen, nextLen)\<close> entries.  At every index \<open>i\<close> with a next child, the new entry
  is what \<open>reconcile\<close> returned for the previous entry at index \<open>i\<close> (null when there was
  none) against the next child at index \<open>i\<close>, under the path made from \<open>i\<close>, with the
  element (for a fragment: the parent) as parent.  At every index past the next list the
  new entry is null and no host node of the previous child at that index is under that
  parent any more.  (\<open>isEmptyValue\<close> holds of no VNode, so the filtered next list is
  \<open>props.children\<close> itself.)
\<close>

theorem reconcile_matches_children_by_index:
  assumes "reconcile env (Suc fuel) parentDom (Some i0) (Some n) path s = Some (Inr result, s')"
      and "vtype (inst_node i0) = vtype n" and "inst_key i0 = vkey n"
      and "(vtype n = Fragment \<and> pd = parentDom) \<or> (vtype n = Host t \<and> inst_dom i0 = Some pd)"
  shows "\<exists>i'. result = Some i'
       \<and> length (inst_children i') = max (length (inst_children i0)) (length (vchildren n))
       \<and> (\<forall>i. i < length (vchildren n) \<longrightarrow>
            (\<exists>si si'. reconcile env fuel pd (nth_or_null (inst_children i0) i)
                         (Some (vchildren n ! i))
                         (createChildPath env path (vkey (vchildren n ! i)) i
                            (vtype (vchildren n ! i)) (vchildren n)) si
                       = Some (Inr (inst_children i' ! i), si')))
       \<and> (\<forall>i. length (vchildren n) \<le> i \<and> i < length (inst_children i0) \<longrightarrow>
            inst_children i' ! i = None
          \<and> (\<forall>m \<in> set (getDomNodes (inst_children i0 ! i)).
                parentNode (nodes s' m) \<noteq> Some pd))"
proof -
  let ?i = "Instance (inst_kind i0) (inst_dom i0) n (inst_children i0) (inst_key i0) path"
  have "\<exists>i' s1. reconcileChildren (reconcile env fuel) env pd ?i n path s1 = Some (Inr i', s')
          \<and> result = Some i'"
    using assms(4)
  proof
    assume "vtype n = Fragment \<and> pd = parentDom"
    with assms(1,2,3) show ?thesis
      by (auto simp: reconcile_body_def Let_def bind_f_Some)
  next
    assume "vtype n = Host t \<and> inst_dom i0 = Some pd"
    with assms(1,2,3) show ?thesis
      by (auto simp: reconcile_body_def Let_def bind_f_Some lift_f_Some)
  qed
  then obtain i' s1 where
      rc: "reconcileChildren (reconcile env fuel) env pd ?i n path s1 = Some (Inr i', s')"
    and res: "result = Some i'"
    by (elim exE conjE)
  from reconcileChildren_by_index [OF rc] res show ?thesis by simp
qed

text \<open>
  \<open>[A, B, C]\<close> re-rendered as \<open>[X, A, B, C]\<close>: the text nodes 2, 3, 4 that showed A, B, C
  are kept at their indices and now show X, A, B, and a new node 5 is mounted for C.
\<close>

theorem reconcile_matches_children_by_index_witness:
  "vtype (inst_node abc_instance) = vtype xabc_tree \<and> inst_key abc_instance = vkey xabc_tree
   \<and> vtype xabc_tree = Host ''ul'' \<and> inst_dom abc_instance = Some 1
   \<and> (\<exists>instance' s'.
        reconcile no_code 2 0 (Some abc_instance) (Some xabc_tree) [] abc_state
          = Some (Inr (Some instance'), s')
      \<and> length (inst_children instance') = 4
      \<and> map (map_option inst_dom) (inst_children instance')
          = [Some (Some 2), Some (Some 3), Some (Some 4), Some (Some 5)]
      \<and> map (\<lambda>n. nodeValue (nodes s' n)) (childNodes (nodes s' 1))
          = [Str ''X'', Str ''A'', Str ''B'', Str ''C'']
      \<and> (\<exists>si si'. reconcile no_code 1 1 (nth_or_null (inst_children abc_instance) 0)
                      (Some (createTextElement ''X'')) ''.i0.cSymbol(TEXT_ELEMENT)_0'' si
                    = Some (Inr (inst_children instance' ! 0), si')))"
proof -
  have h: "vtype (inst_node abc_instance) = vtype xabc_tree"
          "inst_key abc_instance = vkey xabc_tree"
          "vtype xabc_tree = Host ''ul''" "inst_dom abc_instance = Some 1"
    by (simp_all add: abc_instance_def abc_tree_def xabc_tree_def)
  have "\<exists>instance' s'.
      reconcile no_code 2 0 (Some abc_instance) (Some xabc_tree) [] abc_state
        = Some (Inr (Some instance'), s')
    \<and> map (map_option inst_dom) (inst_children instance')
        = [Some (Some 2), Some (Some 3), Some (Some 4), Some (Some 5)]
    \<and> map (\<lambda>n. nodeValue (nodes s' n)) (childNodes (nodes s' 1))
        = [Str ''X'', Str ''A'', Str ''B'', Str ''C'']"
    by (simp add: abc_tree_def xabc_tree_def abc_instance_def abc_state_def
          createTextElement_def run_defs)
  then obtain instance' s' where
      r: "reconcile no_code 2 0 (Some abc_instance) (Some xabc_tree) [] abc_state
            = Some (Inr (Some instance'), s')"
    and d: "map (map_option inst_dom) (inst_children instance')
              = [Some (Some 2), Some (Some 3), Some (Some 4), Some (Some 5)]"
    and v: "map (\<lambda>n. nodeValue (nodes s' n)) (childNodes (nodes s' 1))
              = [Str ''X'', Str ''A'', Str ''B'', Str ''C'']"
    by (elim exE conjE)
  have r': "reconcile no_code (Suc 1) 0 (Some abc_instance) (Some xabc_tree) [] abc_state
            = Some (Inr (Some instance'), s')"
    using r by (simp add: numeral_2_eq_2)
  have k: "(vtype xabc_tree = Fragment \<and> 1 = (0::nat))
           \<or> (vtype xabc_tree = Host ''ul'' \<and> inst_dom abc_instance = Some 1)"
    using h by simp
  note t = reconcile_matches_children_by_index [OF r' h(1) h(2) k]
  have l: "length (inst_children instance') = 4"
    using t by (simp add: abc_instance_def xabc_tree_def)
  have "0 < length (vchildren xabc_tree)" by (simp add: xabc_tree_def)
  with t have "\<exists>si si'. reconcile no_code 1 1 (nth_or_null (inst_children abc_instance) 0)
                         (Some (vchildren xabc_tree ! 0))
                         (createChildPath no_code [] (vkey (vchildren xabc_tree ! 0)) 0
                            (vtype (vchildren xabc_tree ! 0)) (vchildren xabc_tree)) si
                       = Some (Inr (inst_children instance' ! 0), si')"
    by auto
  then have p: "\<exists>si si'. reconcile no_code 1 1 (nth_or_null (inst_children abc_instance) 0)
                    (Some (createTextElement ''X'')) ''.i0.cSymbol(TEXT_ELEMENT)_0'' si
                  = Some (Inr (inst_children instance' ! 0), si')"
    by (simp add: xabc_tree_def createTextElement_def createChildPath_def string_of_nat_small)
  have x: "\<exists>instance' s'.
        reconcile no_code 2 0 (Some abc_instance) (Some xabc_tree) [] abc_state
          = Some (Inr (Some instance'), s')
      \<and> length (inst_children instance') = 4
      \<and> map (map_option inst_dom) (inst_children instance')
          = [Some (Some 2), Some (Some 3), Some (Some 4), Some (Some 5)]
      \<and> map (\<lambda>n. nodeValue (nodes s' n)) (childNodes (nodes s' 1))
          = [Str ''X'', Str ''A'', Str ''B'', Str ''C'']
      \<and> (\<exists>si si'. reconcile no_code 1 1 (nth_or_null (inst_children abc_instance) 0)
                      (Some (createTextElement ''X'')) ''.i0.cSymbol(TEXT_ELEMENT)_0'' si
                    = Some (Inr (inst_children instance' ! 0), si'))"
    by (rule exI [where x = instance'], rule exI [where x = s']) (intro conjI r l d v p)
  show ?thesis by (intro conjI h x)
qed

end
